theory Spec2Isabelle
  imports Main
begin

section \<open>Syntax trees of caterwaul.regexp\<close>

text \<open>
  A tree node carries \<open>data\<close> (the tag: a string, or a number for the bounds of a
  \<open>{m,n}\<close> repetition, \<open>Infinity\<close> included) and its children. Every node of one parse
  also points to the one shared \<open>context\<close> object; that pointer is kept beside the root
  (record \<open>regexp_syntax\<close> below) instead of inside each node.

  A JavaScript number is a double. \<open>Num n\<close> is the number \<open>n\<close>; the parser builds
  it for \<open>n < 2^53\<close> only, where every natural number is a double and is held
  exactly. \<open>Big\<close> stands for a number of \<open>2^53\<close> or more read from a run of
  digits: the double that the code holds for it is not modelled, and whatever computes
  with it is \<open>Unmodelled\<close>.

  \<open>Undefined\<close> stands for the child slot filled by pushing JavaScript's \<open>undefined\<close>
  (the value of \<open>context.groups[k]\<close> read past the end of the array). What the tree
  library's \<open>push\<close> stores for it is outside this source.
\<close>

datatype data = Str string | Num nat | Infinity | Big

datatype node = Node data "node list" | Undefined

record flags =
  flag_i :: bool
  flag_m :: bool
  flag_g :: bool

record "context" =
  groups :: "node list"
  flags :: flags

record regexp_syntax =
  root :: node
  ctx :: "context"

record settings =
  atom_mode :: string

text \<open>The values that flow through the combinators (JavaScript is untyped).\<close>

datatype val = VStr string | VNum nat | VBig | VNode node | VList "val list" | VUndef

datatype cursor = Cursor (v: val) (i: nat)

datatype error = Error string | TypeError | Unmodelled

text \<open>
  A parser maps a cursor to a cursor or to a falsy value (\<open>None\<close> inside), and may
  change the context on the way (\<open>add_group\<close>). The outer \<open>None\<close> means that the
  call did not return within the given depth of nested rule calls.
\<close>

type_synonym outcome = "(cursor option \<times> context) option"
type_synonym parser = "cursor \<Rightarrow> context \<Rightarrow> outcome"
type_synonym fn = "val \<Rightarrow> context \<Rightarrow> val \<times> context"

abbreviation bs :: char where
  "bs \<equiv> CHR 0x5C"

subsection \<open>Numbers and strings\<close>

definition digit_val :: "char \<Rightarrow> nat" where
  "digit_val c = of_char c - 48"

text \<open>
  \<open>to_number ds\<close> is the natural number that the decimal digits \<open>ds\<close> denote. The
  unary \<open>+\<close> of the source gives the double nearest to it: the same number below
  \<open>2^53\<close>, which covers the one or two digits of a backreference. \<open>number_val\<close> is
  the value of \<open>+_.join('')\<close> on a run of digits of any length, and \<open>exact\<close> the
  result of an addition or multiplication of two such numbers (the bound is compared
  in the integers).
\<close>

definition to_number :: "string \<Rightarrow> nat" where
  "to_number ds = foldl (\<lambda>a c. 10 * a + digit_val c) 0 ds"

definition number_val :: "string \<Rightarrow> val" where
  "number_val ds = (if int (to_number ds) < 2 ^ 53 then VNum (to_number ds) else VBig)"

definition exact :: "nat \<Rightarrow> error + nat" where
  "exact n = (if int n < 2 ^ 53 then Inr n else Inl Unmodelled)"

fun number_string :: "nat \<Rightarrow> string" where
  "number_string n =
     (if n < 10 then [char_of (48 + n)]
      else number_string (n div 10) @ [char_of (48 + n mod 10)])"

declare number_string.simps [simp del]

fun data_string :: "data \<Rightarrow> string" where
  "data_string (Str x) = x"
| "data_string (Num n) = number_string n"
| "data_string Infinity = ''Infinity''"
| "data_string Big = []"

fun val_string :: "val \<Rightarrow> string" where
  "val_string (VStr x) = x"
| "val_string (VNum n) = number_string n"
| "val_string _ = []"

text \<open>\<open>_.join('')\<close>, \<open>_[k]\<close>, and the arguments of \<open>node(...)\<close>.\<close>

fun join_str :: "val \<Rightarrow> string" where
  "join_str (VList xs) = concat (map val_string xs)"
| "join_str x = val_string x"

fun nth_val :: "val \<Rightarrow> nat \<Rightarrow> val" where
  "nth_val (VList xs) k = (if k < length xs then xs ! k else VUndef)"
| "nth_val _ k = VUndef"

fun val_data :: "val \<Rightarrow> data" where
  "val_data (VStr x) = Str x"
| "val_data (VNum n) = Num n"
| "val_data VBig = Big"
| "val_data _ = Str []"

fun val_node :: "val \<Rightarrow> node" where
  "val_node (VNode n) = n"
| "val_node _ = Undefined"

definition node :: "data \<Rightarrow> val list \<Rightarrow> val" where
  "node d xs = VNode (Node d (map val_node xs))"

definition add_group :: "node \<Rightarrow> context \<Rightarrow> context" where
  "add_group n c = c\<lparr>groups := groups c @ [n]\<rparr>"

definition ret :: "(val \<Rightarrow> val) \<Rightarrow> fn" where
  "ret f x c = (f x, c)"

section \<open>The methods of a tree node\<close>

text \<open>
  Each predicate is a regular-expression test on \<open>this.data\<close> (a number is tested as
  its decimal text), some with a test of \<open>this.length\<close>. A method either returns a
  value or raises: \<open>Error\<close> is raised by the source itself, \<open>TypeError\<close> by a
  property read on \<open>undefined\<close> (a child index past \<open>this.length\<close>), and
  \<open>Unmodelled\<close> marks an outcome outside this model: a method that meets the
  \<open>Undefined\<close> slot or the data \<open>Big\<close>, or arithmetic that leaves the natural
  numbers below \<open>2^53\<close>.
\<close>

fun this_data :: "node \<Rightarrow> data" where
  "this_data (Node d cs) = d"
| "this_data Undefined = Str []"

fun this_length :: "node \<Rightarrow> nat" where
  "this_length (Node d cs) = length cs"
| "this_length Undefined = 0"

fun child :: "node \<Rightarrow> nat \<Rightarrow> node option" where
  "child (Node d cs) j = (if j < length cs then Some (cs ! j) else None)"
| "child Undefined j = None"

definition tag :: "node \<Rightarrow> string" where
  "tag this = data_string (this_data this)"

definition is_line_terminator :: "char \<Rightarrow> bool" where
  "is_line_terminator c = (c = CHR 0x0A \<or> c = CHR 0x0D)"

definition is_word_char :: "char \<Rightarrow> bool" where
  "is_word_char c =
     (c \<in> set ''0123456789ABCDEFGHIJKLMNOPQRSTUVWXYZabcdefghijklmnopqrstuvwxyz_'')"

definition is_positive_lookahead :: "node \<Rightarrow> bool" where
  "is_positive_lookahead this = (tag this = ''(?='')"

definition is_negative_lookahead :: "node \<Rightarrow> bool" where
  "is_negative_lookahead this = (tag this = ''(?!'')"

definition is_zero_width :: "node \<Rightarrow> bool" where
  "is_zero_width this =
     (tag this \<in> {''^'', ''$'', [bs, CHR ''B''], [bs, CHR ''b'']}
      \<or> is_positive_lookahead this \<or> is_negative_lookahead this)"

definition is_one_or_more :: "node \<Rightarrow> bool" where
  "is_one_or_more this = (tag this \<in> {''+'', ''+?''})"

definition is_zero_or_more :: "node \<Rightarrow> bool" where
  "is_zero_or_more this = (tag this \<in> {''*'', ''*?''})"

definition is_optional :: "node \<Rightarrow> bool" where
  "is_optional this = (tag this = ''?'')"

definition is_non_greedy :: "node \<Rightarrow> bool" where
  "is_non_greedy this =
     (case rev (tag this) of
        q # c # rest \<Rightarrow> q = CHR ''?'' \<and> \<not> is_line_terminator c
      | _ \<Rightarrow> False)"

definition is_repetition :: "node \<Rightarrow> bool" where
  "is_repetition this = (tag this \<in> {''+'', ''*'', ''{'', ''+?'', ''*?'', ''{?'', ''?''})"

definition starts_with :: "char \<Rightarrow> string \<Rightarrow> bool" where
  "starts_with c x = (case x of [] \<Rightarrow> False | y # ys \<Rightarrow> y = c)"

definition repeated_child :: "node \<Rightarrow> node option" where
  "repeated_child this = (if starts_with CHR ''{'' (tag this) then child this 2 else child this 0)"

definition is_character_class :: "node \<Rightarrow> bool" where
  "is_character_class this = starts_with CHR ''['' (tag this)"

definition is_single_escape :: "node \<Rightarrow> bool" where
  "is_single_escape this =
     (case tag this of
        [] \<Rightarrow> False
      | c # rest \<Rightarrow> c = bs \<and> rest \<noteq> [] \<and> (\<forall>x \<in> set rest. \<not> is_line_terminator x))"

definition is_range :: "node \<Rightarrow> bool" where
  "is_range this = (tag this = ''-'' \<and> this_length this = 2)"

definition is_atom :: "node \<Rightarrow> bool" where
  "is_atom this = (this_length this = 0)"

definition is_any_group :: "node \<Rightarrow> bool" where
  "is_any_group this = starts_with CHR ''('' (tag this)"

definition is_group :: "node \<Rightarrow> bool" where
  "is_group this = (tag this = ''('')"

definition is_forgetful :: "node \<Rightarrow> bool" where
  "is_forgetful this = (tag this = ''(?:'')"

definition is_backreference :: "node \<Rightarrow> bool" where
  "is_backreference this = (tag this = [bs])"

definition is_disjunction :: "node \<Rightarrow> bool" where
  "is_disjunction this = (tag this = ''|'' \<and> this_length this = 2)"

definition is_join :: "node \<Rightarrow> bool" where
  "is_join this = (tag this = '','' \<and> this_length this = 2)"

text \<open>Sequencing of calls that may raise, and the read \<open>this[j]\<close> followed by a use.\<close>

abbreviation bind :: "error + 'a \<Rightarrow> ('a \<Rightarrow> error + 'b) \<Rightarrow> error + 'b" where
  "bind x f \<equiv> (case x of Inl e \<Rightarrow> Inl e | Inr y \<Rightarrow> f y)"

definition child_data :: "node \<Rightarrow> nat \<Rightarrow> error + data" where
  "child_data this j =
     (case child this j of
        None \<Rightarrow> Inl TypeError
      | Some Undefined \<Rightarrow> Inl Unmodelled
      | Some (Node d cs) \<Rightarrow> if d = Big then Inl Unmodelled else Inr d)"

text \<open>
  \<open>toString\<close>; the last two branches return \<open>this.data\<close> itself, given here as
  its text. The text of the data \<open>Big\<close> is not modelled (first branch); none of the
  tests on \<open>this.data\<close> matches the text of a number.
\<close>

function toString :: "node \<Rightarrow> error + string" where
  "toString Undefined = Inl Unmodelled"
| "toString (Node d cs) =
     (let this = Node d cs in
      if d = Big then Inl Unmodelled
      else if is_any_group this then
        (case child this 0 of None \<Rightarrow> Inl TypeError
         | Some c \<Rightarrow> bind (toString c) (\<lambda>x. Inr (tag this @ x @ '')'')))
      else if is_character_class this then
        (case child this 0 of None \<Rightarrow> Inl TypeError
         | Some c \<Rightarrow> bind (toString c) (\<lambda>x. Inr (tag this @ x @ '']'')))
      else if is_range this then
        (case child this 0 of None \<Rightarrow> Inl TypeError
         | Some c0 \<Rightarrow> bind (toString c0) (\<lambda>x.
             case child this 1 of None \<Rightarrow> Inl TypeError
             | Some c1 \<Rightarrow> bind (toString c1) (\<lambda>y. Inr (x @ ''-'' @ y))))
      else if is_zero_or_more this \<or> is_one_or_more this \<or> is_optional this then
        (case child this 0 of None \<Rightarrow> Inl TypeError
         | Some c \<Rightarrow> bind (toString c) (\<lambda>x. Inr (x @ tag this)))
      else if is_repetition this then
        (case child this 2 of None \<Rightarrow> Inl TypeError
         | Some c \<Rightarrow> bind (toString c) (\<lambda>x.
             bind (child_data this 0) (\<lambda>d0.
             bind (child_data this 1) (\<lambda>d1.
               Inr (x @ (if d0 = d1 then ''{'' @ data_string d0 @ ''}''
                         else if d1 = Infinity then ''{'' @ data_string d0 @ '',}''
                         else ''{'' @ data_string d0 @ '','' @ data_string d1 @ ''}''))))))
      else if is_zero_width this then Inr (tag this)
      else if is_backreference this then
        bind (child_data this 0) (\<lambda>d0. Inr (bs # data_string d0))
      else if is_disjunction this then
        (case child this 0 of None \<Rightarrow> Inl TypeError
         | Some c0 \<Rightarrow> bind (toString c0) (\<lambda>x.
             case child this 1 of None \<Rightarrow> Inl TypeError
             | Some c1 \<Rightarrow> bind (toString c1) (\<lambda>y. Inr (x @ ''|'' @ y))))
      else if is_join this then
        (case child this 0 of None \<Rightarrow> Inl TypeError
         | Some c0 \<Rightarrow> bind (toString c0) (\<lambda>x.
             case child this 1 of None \<Rightarrow> Inl TypeError
             | Some c1 \<Rightarrow> bind (toString c1) (\<lambda>y. Inr (x @ y))))
      else if is_atom this then
        (if length (tag this) \<ge> 2 \<and> (\<forall>c \<in> set (tag this). is_word_char c)
         then Inr (''(?:'' @ tag this @ '')'') else Inr (tag this))
      else Inr (tag this))"
  by pat_completeness auto
termination
  by (relation "measure size")
    (auto split: if_splits simp: less_Suc_eq_le intro!: size_list_estimation' [OF nth_mem])

text \<open>
  \<open>lower_limit\<close> and \<open>upper_limit\<close>; the message of the error they raise on a
  node that is no repetition interpolates \<open>this\<close>, that is \<open>this.toString()\<close>.
\<close>

definition lower_limit :: "node \<Rightarrow> error + data" where
  "lower_limit this =
     (if tag this \<in> {''+'', ''+?''} then Inr (Num 1)
      else if tag this \<in> {''*'', ''*?'', ''?''} then Inr (Num 0)
      else if starts_with CHR ''{'' (tag this) then child_data this 0
      else bind (toString this) (\<lambda>x.
             Inl (Error (''lower limit is undefined for nonrepetitive node '' @ x))))"

definition upper_limit :: "node \<Rightarrow> error + data" where
  "upper_limit this =
     (if tag this \<in> {''*'', ''+'', ''*?'', ''+?''} then Inr Infinity
      else if tag this = ''?'' then Inr (Num 1)
      else if starts_with CHR ''{'' (tag this) then child_data this 1
      else bind (toString this) (\<lambda>x.
             Inl (Error (''upper limit is undefined for nonrepetitive node '' @ x))))"

text \<open>
  \<open>this.data.length\<close>, and the product and the sum in \<open>minimum_length\<close>: products
  and sums of doubles, which are those of the natural numbers as long as the operands
  and the result stay below \<open>2^53\<close>.
\<close>

definition data_length :: "data \<Rightarrow> error + nat" where
  "data_length d = (case d of Str x \<Rightarrow> Inr (length x) | _ \<Rightarrow> Inl Unmodelled)"

definition times :: "data \<Rightarrow> nat \<Rightarrow> error + nat" where
  "times d m =
     (case d of
        Num l \<Rightarrow> if int l < 2 ^ 53 then exact (l * m) else Inl Unmodelled
      | _ \<Rightarrow> Inl Unmodelled)"

function minimum_length :: "node \<Rightarrow> error + nat" where
  "minimum_length Undefined = Inl Unmodelled"
| "minimum_length (Node d cs) =
     (let this = Node d cs in
      if is_zero_width this then Inr 0
      else if is_single_escape this \<or> is_character_class this then Inr 1
      else if is_repetition this then
        bind (lower_limit this) (\<lambda>l.
          case repeated_child this of None \<Rightarrow> Inl TypeError
          | Some c \<Rightarrow> bind (minimum_length c) (\<lambda>m. times l m))
      else if is_group this \<or> is_forgetful this then
        (case child this 0 of None \<Rightarrow> Inl TypeError | Some c \<Rightarrow> minimum_length c)
      else if is_backreference this then
        (case child this 1 of None \<Rightarrow> Inl TypeError | Some c \<Rightarrow> minimum_length c)
      else if is_disjunction this then
        (case child this 0 of None \<Rightarrow> Inl TypeError
         | Some c0 \<Rightarrow> bind (minimum_length c0) (\<lambda>x.
             case child this 1 of None \<Rightarrow> Inl TypeError
             | Some c1 \<Rightarrow> bind (minimum_length c1) (\<lambda>y. Inr (min x y))))
      else if is_join this then
        (case child this 0 of None \<Rightarrow> Inl TypeError
         | Some c0 \<Rightarrow> bind (minimum_length c0) (\<lambda>x.
             case child this 1 of None \<Rightarrow> Inl TypeError
             | Some c1 \<Rightarrow> bind (minimum_length c1) (\<lambda>y. exact (x + y))))
      else data_length d)"
  by pat_completeness auto
termination
  by (relation "measure size")
    (auto split: if_splits simp: repeated_child_def less_Suc_eq_le
       intro!: size_list_estimation' [OF nth_mem])

text \<open>The methods that read the shared context of the tree.\<close>

definition regexp_i :: "regexp_syntax \<Rightarrow> bool" where
  "regexp_i this = flag_i (flags (ctx this))"

definition regexp_m :: "regexp_syntax \<Rightarrow> bool" where
  "regexp_m this = flag_m (flags (ctx this))"

definition regexp_g :: "regexp_syntax \<Rightarrow> bool" where
  "regexp_g this = flag_g (flags (ctx this))"

definition match_groups :: "regexp_syntax \<Rightarrow> node list" where
  "match_groups this = groups (ctx this)"

section \<open>The parser combinators\<close>

definition char_p :: "string \<Rightarrow> string \<Rightarrow> parser" where
  "char_p s c p k =
     (if i p < length s \<and> s ! i p \<in> set c
      then Some (Some (Cursor (VStr [s ! i p]) (i p + 1)), k)
      else Some (None, k))"

definition string_p :: "string \<Rightarrow> string \<Rightarrow> parser" where
  "string_p s cs p k =
     (if i p < length s \<and> take (length cs) (drop (i p) s) = cs
      then Some (Some (Cursor (VStr (take (length cs) (drop (i p) s))) (i p + length cs)), k)
      else Some (None, k))"

definition not_p :: "string \<Rightarrow> nat \<Rightarrow> parser \<Rightarrow> parser" where
  "not_p s n f p k =
     (if i p \<ge> length s then Some (None, k)
      else case f p k of
             None \<Rightarrow> None
           | Some (Some r, k') \<Rightarrow> Some (None, k')
           | Some (None, k') \<Rightarrow> Some (Some (Cursor (VStr (take n (drop (i p) s))) (i p + n)), k'))"

definition any_p :: "string \<Rightarrow> nat \<Rightarrow> parser" where
  "any_p s n p k =
     (if i p < length s
      then Some (Some (Cursor (VStr (take n (drop (i p) s))) (i p + n)), k)
      else Some (None, k))"

fun alt :: "parser list \<Rightarrow> parser" where
  "alt [] p k = Some (None, k)"
| "alt (x # xs) p k =
     (case x p k of
        None \<Rightarrow> None
      | Some (Some r, k') \<Rightarrow> Some (Some r, k')
      | Some (None, k') \<Rightarrow> alt xs p k')"

text \<open>
  \<open>many\<close> unfolds \<open>p, f(p), f(f(p)), ...\<close> until \<open>f\<close> gives a falsy value; the
  first argument bounds the number of steps.
\<close>

fun unfold :: "nat \<Rightarrow> parser \<Rightarrow> cursor \<Rightarrow> context \<Rightarrow> (cursor list \<times> context) option" where
  "unfold 0 f p k = None"
| "unfold (Suc n) f p k =
     (case f p k of
        None \<Rightarrow> None
      | Some (None, k') \<Rightarrow> Some ([p], k')
      | Some (Some q, k') \<Rightarrow>
          (case unfold n f q k' of
             None \<Rightarrow> None
           | Some (qs, k'') \<Rightarrow> Some (p # qs, k'')))"

definition many :: "nat \<Rightarrow> parser \<Rightarrow> parser" where
  "many n f p k =
     (case unfold n f p k of
        None \<Rightarrow> None
      | Some (it, k') \<Rightarrow>
          Some (if length it > 1
                then Some (Cursor (VList (map v (tl it))) (i (last it)))
                else None, k'))"

text \<open>
  \<open>join\<close> folds the parsers over the cursor, collecting the values in \<open>ns\<close>; a
  falsy cursor makes the rest of the fold a no-op.
\<close>

fun join_fold :: "parser list \<Rightarrow> val list \<Rightarrow> parser" where
  "join_fold [] ns p k = Some (Some (Cursor (VList ns) (i p)), k)"
| "join_fold (x # xs) ns p k =
     (case x p k of
        None \<Rightarrow> None
      | Some (None, k') \<Rightarrow> Some (None, k')
      | Some (Some r, k') \<Rightarrow> join_fold xs (ns @ [v r]) r k')"

definition join :: "parser list \<Rightarrow> parser" where
  "join ps p k = join_fold ps [] p k"

definition zero :: parser where
  "zero p k = Some (Some p, k)"

definition map_p :: "parser \<Rightarrow> fn \<Rightarrow> parser" where
  "map_p parser f p k =
     (case parser p k of
        None \<Rightarrow> None
      | Some (None, k') \<Rightarrow> Some (None, k')
      | Some (Some result, k') \<Rightarrow>
          (case f (v result) k' of (y, k'') \<Rightarrow> Some (Some (Cursor y (i result)), k'')))"

definition ident :: "string \<Rightarrow> parser" where
  "ident s = char_p s ''0123456789ABCDEFGHIJKLMNOPQRSTUVWXYZabcdefghijklmnopqrstuvwxyz_''"

definition digit :: "string \<Rightarrow> parser" where
  "digit s = char_p s ''0123456789''"

definition hex :: "string \<Rightarrow> parser" where
  "hex s = char_p s ''0123456789ABCDEFabcdef''"

definition number :: "string \<Rightarrow> nat \<Rightarrow> parser" where
  "number s n = map_p (many n (digit s)) (ret (\<lambda>x. number_val (join_str x)))"

definition end_p :: "string \<Rightarrow> parser" where
  "end_p s p k = (if i p = length s then Some (Some p, k) else Some (None, k))"

section \<open>The grammar\<close>

text \<open>
  The rules \<open>toplevel\<close>, \<open>no_pipes\<close>, \<open>term\<close>, \<open>atom\<close> and \<open>character_class\<close>
  call each other through forward definitions. Their first argument here bounds the
  depth of nested rule calls that are left; the rules local to a \<open>where\<close> block take
  the rules they close over as arguments.
\<close>

subsection \<open>The functions handed to \<open>map\<close>\<close>

definition node1 :: "val \<Rightarrow> val" where
  "node1 x = node (val_data x) []"

definition node_join :: "val \<Rightarrow> val" where
  "node_join x = node (Str (join_str x)) []"

definition append_data :: "val \<Rightarrow> val \<Rightarrow> val" where
  "append_data it x =
     (case it of
        VNode (Node d cs) \<Rightarrow> VNode (Node (Str (data_string d @ val_string x)) cs)
      | _ \<Rightarrow> it)"

definition push :: "val \<Rightarrow> val \<Rightarrow> val" where
  "push it x =
     (case it of
        VNode (Node d cs) \<Rightarrow> VNode (Node d (cs @ [val_node x]))
      | _ \<Rightarrow> it)"

definition context_group :: "context \<Rightarrow> nat \<Rightarrow> val" where
  "context_group k n = (if n < length (groups k) then VNode (groups k ! n) else VUndef)"

definition new_group :: fn where
  "new_group x k =
     (let it = node (Str ''('') [nth_val x 1] in (it, add_group (val_node it) k))"

subsection \<open>Quantifiers\<close>

definition star :: "string \<Rightarrow> parser" where
  "star s = map_p (char_p s ''*'') (ret node1)"

definition plus :: "string \<Rightarrow> parser" where
  "plus s = map_p (char_p s ''+'') (ret node1)"

definition question_mark :: "string \<Rightarrow> parser" where
  "question_mark s = map_p (char_p s ''?'') (ret node1)"

definition repetition :: "string \<Rightarrow> nat \<Rightarrow> parser" where
  "repetition s n =
     alt [map_p (join [char_p s ''{'', number s n, char_p s ''}''])
            (ret (\<lambda>x. node (Str ''{'') [node1 (nth_val x 1), node1 (nth_val x 1)])),
          map_p (join [char_p s ''{'', number s n, char_p s '','', char_p s ''}''])
            (ret (\<lambda>x. node (Str ''{'') [node1 (nth_val x 1), node Infinity []])),
          map_p (join [char_p s ''{'', number s n, char_p s '','', number s n, char_p s ''}''])
            (ret (\<lambda>x. node (Str ''{'') [node1 (nth_val x 1), node1 (nth_val x 3)]))]"

definition modifier :: "string \<Rightarrow> nat \<Rightarrow> parser" where
  "modifier s n = alt [star s, plus s, repetition s n]"

definition non_greedy :: "string \<Rightarrow> parser" where
  "non_greedy s = char_p s ''?''"

definition modifiers :: "string \<Rightarrow> nat \<Rightarrow> parser" where
  "modifiers s n =
     alt [map_p (join [modifier s n, non_greedy s])
            (ret (\<lambda>x. append_data (nth_val x 0) (nth_val x 1))),
          modifier s n,
          question_mark s]"

subsection \<open>Atoms\<close>

definition positive_lookahead :: "string \<Rightarrow> parser \<Rightarrow> parser" where
  "positive_lookahead s toplevel =
     map_p (join [string_p s ''(?='', toplevel, string_p s '')''])
       (ret (\<lambda>x. node (Str ''(?='') [nth_val x 1]))"

definition negative_lookahead :: "string \<Rightarrow> parser \<Rightarrow> parser" where
  "negative_lookahead s toplevel =
     map_p (join [string_p s ''(?!'', toplevel, string_p s '')''])
       (ret (\<lambda>x. node (Str ''(?!'') [nth_val x 1]))"

definition forgetful_group :: "string \<Rightarrow> parser \<Rightarrow> parser" where
  "forgetful_group s toplevel =
     map_p (join [string_p s ''(?:'', toplevel, string_p s '')''])
       (ret (\<lambda>x. node (Str ''(?:'') [nth_val x 1]))"

definition group :: "string \<Rightarrow> parser \<Rightarrow> parser" where
  "group s toplevel =
     map_p (join [string_p s ''('', toplevel, string_p s '')'']) new_group"

definition each :: "string \<Rightarrow> parser" where
  "each s =
     alt [map_p (join [any_p s 1, char_p s ''-'', any_p s 1])
            (ret (\<lambda>x. node (Str ''-'') [node1 (nth_val x 0), node1 (nth_val x 2)])),
          map_p (join [char_p s [bs], any_p s 1]) (ret node_join),
          map_p (not_p s 1 (char_p s '']'')) (ret node1)]"

fun character_class :: "string \<Rightarrow> nat \<Rightarrow> parser" where
  "character_class s 0 p k = None"
| "character_class s (Suc n) p k =
     alt [map_p (join [each s, character_class s n])
            (ret (\<lambda>x. node (Str '','') [nth_val x 0, nth_val x 1])),
          each s] p k"

definition character_not_in :: "string \<Rightarrow> nat \<Rightarrow> parser" where
  "character_not_in s n =
     map_p (join [string_p s ''[^'', character_class s n, string_p s '']''])
       (ret (\<lambda>x. node (Str ''[^'') [nth_val x 1]))"

definition character_in :: "string \<Rightarrow> nat \<Rightarrow> parser" where
  "character_in s n =
     map_p (join [string_p s ''['', character_class s n, string_p s '']''])
       (ret (\<lambda>x. node (Str ''['') [nth_val x 1]))"

definition zero_width :: "string \<Rightarrow> parser" where
  "zero_width s = map_p (char_p s ''^$'') (ret node1)"

definition escaped :: "string \<Rightarrow> parser" where
  "escaped s =
     map_p (join [char_p s [bs], char_p s (''BbWwSsDdfnrtv0*+.?|()[]{}'' @ [bs] @ ''$^'')])
       (ret node_join)"

definition escaped_slash :: "string \<Rightarrow> parser" where
  "escaped_slash s = map_p (string_p s [bs, CHR ''/'']) (ret (\<lambda>x. node (Str ''/'') []))"

definition control :: "string \<Rightarrow> parser" where
  "control s = map_p (join [string_p s [bs, CHR ''c''], any_p s 1]) (ret node_join)"

definition hex_code :: "string \<Rightarrow> parser" where
  "hex_code s = map_p (join [string_p s [bs, CHR ''x''], hex s, hex s]) (ret node_join)"

definition unicode :: "string \<Rightarrow> parser" where
  "unicode s =
     map_p (join [string_p s [bs, CHR ''u''], hex s, hex s, hex s, hex s]) (ret node_join)"

text \<open>
  The backreference rule is written in direct style in the source: it reads
  \<open>context.groups\<close> as it stands when the rule runs.
\<close>

definition single_digit_backreference :: "string \<Rightarrow> parser" where
  "single_digit_backreference s =
     map_p (join [char_p s [bs], digit s])
       (\<lambda>xs k. (node (Str [bs])
                   [node (Num (to_number (val_string (nth_val xs 1)))) [],
                    context_group k (to_number (val_string (nth_val xs 1)))], k))"

definition backreference :: "string \<Rightarrow> parser" where
  "backreference s p k =
     (case map_p (join [char_p s [bs], digit s, digit s])
             (ret (\<lambda>x. VNum (to_number (val_string (nth_val x 1) @ val_string (nth_val x 2))))) p k of
        None \<Rightarrow> None
      | Some (Some it, k') \<Rightarrow>
          (case v it of
             VNum n \<Rightarrow>
               if n \<le> length (groups k')
               then Some (Some (Cursor (node (Str [bs]) [node (Num n) [], context_group k' n]) (i it)), k')
               else single_digit_backreference s p k'
           | _ \<Rightarrow> single_digit_backreference s p k')
      | Some (None, k') \<Rightarrow> single_digit_backreference s p k')"

definition dot :: "string \<Rightarrow> parser" where
  "dot s = map_p (char_p s ''.'') (ret node1)"

definition other :: "string \<Rightarrow> parser" where
  "other s = map_p (not_p s 1 (char_p s '')|+*?{'')) (ret node1)"

definition maybe_word :: "settings \<Rightarrow> string \<Rightarrow> nat \<Rightarrow> parser" where
  "maybe_word st s n =
     (if atom_mode st = ''word''
      then alt [map_p (many n (ident s)) (ret node_join), other s]
      else other s)"

definition maybe_munch_spaces :: "settings \<Rightarrow> string \<Rightarrow> nat \<Rightarrow> parser" where
  "maybe_munch_spaces st s n =
     (if atom_mode st = ''word'' then alt [many n (char_p s '' ''), zero] else zero)"

definition base :: "settings \<Rightarrow> string \<Rightarrow> nat \<Rightarrow> parser \<Rightarrow> parser" where
  "base st s n toplevel =
     map_p (join [maybe_munch_spaces st s n,
                  alt [positive_lookahead s toplevel, negative_lookahead s toplevel,
                       forgetful_group s toplevel, group s toplevel,
                       character_not_in s n, character_in s n, zero_width s, escaped s,
                       escaped_slash s, control s, hex_code s, unicode s, backreference s,
                       dot s, maybe_word st s n]])
       (ret (\<lambda>x. nth_val x 1))"

subsection \<open>The recursive rules\<close>

fun toplevel :: "settings \<Rightarrow> string \<Rightarrow> nat \<Rightarrow> parser"
  and no_pipes :: "settings \<Rightarrow> string \<Rightarrow> nat \<Rightarrow> parser"
  and term_p :: "settings \<Rightarrow> string \<Rightarrow> nat \<Rightarrow> parser"
  and atom :: "settings \<Rightarrow> string \<Rightarrow> nat \<Rightarrow> parser"
where
  "toplevel st s 0 p k = None"
| "toplevel st s (Suc n) p k =
     alt [map_p (join [no_pipes st s n, char_p s ''|'', toplevel st s n])
            (ret (\<lambda>x. node (Str ''|'') [nth_val x 0, nth_val x 2])),
          no_pipes st s n] p k"
| "no_pipes st s 0 p k = None"
| "no_pipes st s (Suc n) p k =
     alt [map_p (join [term_p st s n, no_pipes st s n])
            (ret (\<lambda>x. node (Str '','') [nth_val x 0, nth_val x 1])),
          term_p st s n] p k"
| "term_p st s 0 p k = None"
| "term_p st s (Suc n) p k =
     alt [map_p (join [atom st s n, modifiers s n])
            (ret (\<lambda>x. push (nth_val x 1) (nth_val x 0))),
          atom st s n] p k"
| "atom st s 0 p k = None"
| "atom st s (Suc n) p k = base st s n (toplevel st s n) p k"

section \<open>The entry point\<close>

text \<open>
  \<open>r\<close> is the text \<open>r.toString()\<close> of the regular expression or string handed in.
  \<open>pieces\<close> is the result of the two \<open>exec\<close> calls: the delimited form
  \<open>/^\/(.*)\/([gim]*)$/\<close> splits at the last slash, and \<open>/^(.*)$/\<close> takes the whole
  text and leaves the second group undefined. Neither matches a text with a line
  terminator (\<open>.\<close> excludes them), and then \<open>pieces[1]\<close> raises a TypeError.
\<close>

definition delimited :: "string \<Rightarrow> (string \<times> string) option" where
  "delimited r =
     (case r of
        [] \<Rightarrow> None
      | c # rest \<Rightarrow>
          (let fl = rev (takeWhile (\<lambda>x. x \<noteq> CHR ''/'') (rev rest));
               body = rev (drop 1 (dropWhile (\<lambda>x. x \<noteq> CHR ''/'') (rev rest)))
           in if c = CHR ''/'' \<and> CHR ''/'' \<in> set rest \<and> set fl \<subseteq> set ''gim''
              then Some (body, fl) else None))"

definition pieces :: "string \<Rightarrow> (string \<times> string option) option" where
  "pieces r =
     (if \<exists>c \<in> set r. is_line_terminator c then None
      else case delimited r of
             Some (body, fl) \<Rightarrow> Some (body, Some fl)
           | None \<Rightarrow> Some (r, None))"

text \<open>\<open>/c/.test(it)\<close>: an undefined \<open>it\<close> is tested as the text \<open>undefined\<close>.\<close>

definition test_flag :: "char \<Rightarrow> string option \<Rightarrow> bool" where
  "test_flag c it = (c \<in> set (case it of Some fl \<Rightarrow> fl | None \<Rightarrow> ''undefined''))"

definition regexp_parse :: "nat \<Rightarrow> string \<Rightarrow> settings \<Rightarrow> (error + regexp_syntax) option" where
  "regexp_parse n r st =
     (case pieces r of
        None \<Rightarrow> Some (Inl TypeError)
      | Some (s, fl) \<Rightarrow>
          (let flags = \<lparr>flag_i = test_flag CHR ''i'' fl, flag_m = test_flag CHR ''m'' fl,
                        flag_g = test_flag CHR ''g'' fl\<rparr>;
               context = \<lparr>groups = [], flags = flags\<rparr>
           in case join [toplevel st s n, end_p s] (Cursor VUndef 0) context of
                None \<Rightarrow> None
              | Some (Some it, k) \<Rightarrow> Some (Inr \<lparr>root = val_node (nth_val (v it) 0), ctx = k\<rparr>)
              | Some (None, k) \<Rightarrow>
                  Some (Inl (Error (''caterwaul.regexp(): failed to parse '' @ r)))))"

definition default_settings :: settings where
  "default_settings = \<lparr>atom_mode = ''character''\<rparr>"

section \<open>Notions used in the proofs\<close>

text \<open>
  \<open>regexp_root\<close> is the tree that \<open>caterwaul.regexp(r)\<close> returns, without its
  context; \<open>regexp_match_groups\<close>, \<open>regexp_minimum_length\<close> and \<open>regexp_toString\<close>
  are the calls \<open>caterwaul.regexp(r).match_groups()\<close>, \<open>.minimum_length()\<close> and
  \<open>.toString()\<close>.
\<close>

definition regexp_root :: "nat \<Rightarrow> string \<Rightarrow> settings \<Rightarrow> (error + node) option" where
  "regexp_root n r st = map_option (map_sum id root) (regexp_parse n r st)"

definition regexp_match_groups :: "nat \<Rightarrow> string \<Rightarrow> settings \<Rightarrow> (error + node list) option" where
  "regexp_match_groups n r st = map_option (map_sum id match_groups) (regexp_parse n r st)"

definition regexp_minimum_length :: "nat \<Rightarrow> string \<Rightarrow> settings \<Rightarrow> (error + nat) option" where
  "regexp_minimum_length n r st =
     (case regexp_parse n r st of
        None \<Rightarrow> None
      | Some (Inl e) \<Rightarrow> Some (Inl e)
      | Some (Inr t) \<Rightarrow> Some (minimum_length (root t)))"

definition regexp_toString :: "nat \<Rightarrow> string \<Rightarrow> settings \<Rightarrow> (error + string) option" where
  "regexp_toString n r st =
     (case regexp_parse n r st of
        None \<Rightarrow> None
      | Some (Inl e) \<Rightarrow> Some (Inl e)
      | Some (Inr t) \<Rightarrow> Some (toString (root t)))"

text \<open>
  \<open>agrees f g\<close>: wherever \<open>f\<close> returns, \<open>g\<close> returns the same. A rule with a deeper
  bound agrees with the same rule with a shallower one, so a result does not depend on
  the bound under which it was computed.
\<close>

definition agrees :: "parser \<Rightarrow> parser \<Rightarrow> bool" where
  "agrees f g = (\<forall>p k r. f p k = Some r \<longrightarrow> g p k = Some r)"

text \<open>
  \<open>registers gs k\<close> is the context \<open>k\<close> after the nodes \<open>gs\<close> were pushed on
  \<open>context.groups\<close>. \<open>yields P f j X j' gs\<close> sums up the runs of the parser \<open>f\<close> from
  offset \<open>j\<close> in every context that satisfies \<open>P\<close>: it stops at offset \<open>j'\<close> with
  the value \<open>X k\<close> and has pushed \<open>gs\<close>. \<open>closes s j\<close>: no atom starts at offset
  \<open>j\<close> of \<open>s\<close>; \<open>ordinary c\<close>: the character \<open>c\<close> parses as itself.
  \<open>registered_before g h gs\<close>: in the registry \<open>gs\<close> an entry \<open>g\<close> stands before
  the first entry \<open>h\<close>.
\<close>

definition registers :: "node list \<Rightarrow> context \<Rightarrow> context" where
  "registers gs k = k\<lparr>groups := groups k @ gs\<rparr>"

definition yields :: "(context \<Rightarrow> bool) \<Rightarrow> parser \<Rightarrow> nat \<Rightarrow> (context \<Rightarrow> val) \<Rightarrow> nat \<Rightarrow> node list \<Rightarrow> bool" where
  "yields P f j X j' gs =
     (\<forall>x k. P k \<longrightarrow> f (Cursor x j) k = Some (Some (Cursor (X k) j'), registers gs k))"

definition closes :: "string \<Rightarrow> nat \<Rightarrow> bool" where
  "closes s j = (j \<ge> length s \<or> s ! j \<in> set '')|+*?{'')"

definition ordinary :: "char \<Rightarrow> bool" where
  "ordinary c = (c \<notin> set (''([^$.)|+*?{'' @ [bs]))"

definition registered_before :: "node \<Rightarrow> node \<Rightarrow> node list \<Rightarrow> bool" where
  "registered_before g h gs = (g \<in> set (takeWhile (\<lambda>x. x \<noteq> h) gs))"

text \<open>
  The trees of the capturing groups \<open>(a)\<close>, \<open>(b)\<close>, \<open>(c)\<close> and \<open>((a)(b))\<close>, and
  the entries that one run of the \<open>group\<close> rule over \<open>((a)(b))\<close> pushes.
\<close>

definition group_a :: node where
  "group_a = Node (Str ''('') [Node (Str ''a'') []]"

definition group_b :: node where
  "group_b = Node (Str ''('') [Node (Str ''b'') []]"

definition group_c :: node where
  "group_c = Node (Str ''('') [Node (Str ''c'') []]"

definition group_ab :: node where
  "group_ab = Node (Str ''('') [Node (Str '','') [group_a, group_b]]"

definition one_pass :: "node list" where
  "one_pass = [group_a, group_a, group_b, group_b, group_b, group_b,
               group_a, group_a, group_b, group_b, group_b, group_b, group_ab]"

section \<open>A deeper bound gives the same result\<close>

lemma agrees_refl [simp]: "agrees f f"
  by (simp add: agrees_def)

lemma agrees_trans: "agrees f g \<Longrightarrow> agrees g h \<Longrightarrow> agrees f h"
  unfolding agrees_def by blast

lemma agreesD: "agrees f g \<Longrightarrow> f p k = Some r \<Longrightarrow> g p k = Some r"
  unfolding agrees_def by blast

lemma alt_agrees: "list_all2 agrees xs ys \<Longrightarrow> agrees (alt xs) (alt ys)"
proof (induction xs ys rule: list_all2_induct)
  case Nil
  show ?case by simp
next
  case (Cons x xs y ys)
  show ?case
    unfolding agrees_def
  proof (intro allI impI)
    fix p k r
    assume a: "alt (x # xs) p k = Some r"
    then obtain r1 where x: "x p k = Some r1"
      by (cases "x p k") auto
    with Cons.hyps(1) have y: "y p k = Some r1"
      by (rule agreesD)
    show "alt (y # ys) p k = Some r"
    proof (cases r1)
      case (Pair c k')
      show ?thesis
      proof (cases c)
        case None
        with a x Pair have "alt xs p k' = Some r" by simp
        with Cons.IH have "alt ys p k' = Some r" by (rule agreesD)
        with y Pair None show ?thesis by simp
      next
        case (Some q)
        with a x y Pair show ?thesis by auto
      qed
    qed
  qed
qed

lemma join_fold_agrees:
  "list_all2 agrees xs ys \<Longrightarrow> agrees (join_fold xs ns) (join_fold ys ns)"
proof (induction xs ys arbitrary: ns rule: list_all2_induct)
  case Nil
  show ?case by simp
next
  case (Cons x xs y ys)
  show ?case
    unfolding agrees_def
  proof (intro allI impI)
    fix p k r
    assume a: "join_fold (x # xs) ns p k = Some r"
    then obtain r1 where x: "x p k = Some r1"
      by (cases "x p k") auto
    with Cons.hyps(1) have y: "y p k = Some r1"
      by (rule agreesD)
    show "join_fold (y # ys) ns p k = Some r"
    proof (cases r1)
      case (Pair c k')
      show ?thesis
      proof (cases c)
        case None
        with a x y Pair show ?thesis by auto
      next
        case (Some q)
        with a x Pair have "join_fold xs (ns @ [v q]) q k' = Some r" by simp
        with Cons.IH have "join_fold ys (ns @ [v q]) q k' = Some r" by (rule agreesD)
        with y Pair Some show ?thesis by simp
      qed
    qed
  qed
qed

lemma join_agrees: "list_all2 agrees xs ys \<Longrightarrow> agrees (join xs) (join ys)"
  using join_fold_agrees [of xs ys "[]"] by (simp add: agrees_def join_def)

lemma map_p_agrees: "agrees f g \<Longrightarrow> agrees (map_p f h) (map_p g h)"
  unfolding agrees_def map_p_def
  by (auto split: option.splits prod.splits)

lemma not_p_agrees: "agrees f g \<Longrightarrow> agrees (not_p s n f) (not_p s n g)"
  unfolding agrees_def not_p_def
  by (auto split: option.splits prod.splits if_splits)

lemma unfold_Suc: "unfold n f p k = Some r \<Longrightarrow> unfold (Suc n) f p k = Some r"
proof (induction n arbitrary: p k r)
  case 0
  then show ?case by simp
next
  case (Suc n)
  show ?case
  proof (cases "f p k")
    case None
    with Suc.prems show ?thesis by simp
  next
    case (Some a)
    obtain c k' where a: "a = (c, k')" by (cases a)
    show ?thesis
    proof (cases c)
      case None
      with Suc.prems Some a show ?thesis by simp
    next
      case (Some q)
      with Suc.prems \<open>f p k = Some a\<close> a obtain qs k'' where
        u: "unfold n f q k' = Some (qs, k'')" and r: "r = (p # qs, k'')"
        by (auto split: option.splits)
      from Suc.IH [OF u] have "unfold (Suc n) f q k' = Some (qs, k'')" .
      with \<open>f p k = Some a\<close> a Some r show ?thesis
        by (simp del: unfold.simps add: unfold.simps(2) [of "Suc n"])
    qed
  qed
qed

lemma many_agrees: "agrees (many n f) (many (Suc n) f)"
  unfolding agrees_def many_def
  by (auto split: option.splits dest: unfold_Suc simp del: unfold.simps)

lemma number_agrees: "agrees (number s n) (number s (Suc n))"
  unfolding number_def by (intro map_p_agrees many_agrees)

lemma repetition_agrees: "agrees (repetition s n) (repetition s (Suc n))"
  unfolding repetition_def
  by (auto intro!: alt_agrees map_p_agrees join_agrees number_agrees)

lemma modifier_agrees: "agrees (modifier s n) (modifier s (Suc n))"
  unfolding modifier_def
  by (auto intro!: alt_agrees repetition_agrees)

lemma modifiers_agrees: "agrees (modifiers s n) (modifiers s (Suc n))"
  unfolding modifiers_def
  by (auto intro!: alt_agrees modifier_agrees map_p_agrees join_agrees)

lemma character_class_agrees: "agrees (character_class s n) (character_class s (Suc n))"
proof (induction n)
  case 0
  show ?case by (simp add: agrees_def)
next
  case (Suc n)
  have "agrees (alt [map_p (join [each s, character_class s n])
            (ret (\<lambda>x. node (Str '','') [nth_val x 0, nth_val x 1])), each s])
     (alt [map_p (join [each s, character_class s (Suc n)])
            (ret (\<lambda>x. node (Str '','') [nth_val x 0, nth_val x 1])), each s])"
    by (intro alt_agrees) (simp add: map_p_agrees join_agrees Suc.IH)
  then show ?case
    by (simp add: agrees_def)
qed

lemma base_agrees:
  assumes "agrees t t'"
  shows "agrees (base st s n t) (base st s (Suc n) t')"
proof -
  have w: "agrees (maybe_word st s n) (maybe_word st s (Suc n))"
    unfolding maybe_word_def
    by (auto intro!: alt_agrees map_p_agrees many_agrees)
  have m: "agrees (maybe_munch_spaces st s n) (maybe_munch_spaces st s (Suc n))"
    unfolding maybe_munch_spaces_def
    by (auto intro!: alt_agrees many_agrees)
  have c: "agrees (character_not_in s n) (character_not_in s (Suc n))"
    "agrees (character_in s n) (character_in s (Suc n))"
    unfolding character_not_in_def character_in_def
    by (auto intro!: map_p_agrees join_agrees character_class_agrees)
  have g: "agrees (positive_lookahead s t) (positive_lookahead s t')"
    "agrees (negative_lookahead s t) (negative_lookahead s t')"
    "agrees (forgetful_group s t) (forgetful_group s t')"
    "agrees (group s t) (group s t')"
    unfolding positive_lookahead_def negative_lookahead_def forgetful_group_def group_def
    using assms by (auto intro!: map_p_agrees join_agrees)
  show ?thesis
    unfolding base_def
    by (intro map_p_agrees join_agrees) (simp add: w m c g alt_agrees)
qed

lemma toplevel_Suc:
  "toplevel st s (Suc n) =
     alt [map_p (join [no_pipes st s n, char_p s ''|'', toplevel st s n])
            (ret (\<lambda>x. node (Str ''|'') [nth_val x 0, nth_val x 2])),
          no_pipes st s n]"
  by (intro ext) simp

lemma no_pipes_Suc:
  "no_pipes st s (Suc n) =
     alt [map_p (join [term_p st s n, no_pipes st s n])
            (ret (\<lambda>x. node (Str '','') [nth_val x 0, nth_val x 1])),
          term_p st s n]"
  by (intro ext) simp

lemma term_p_Suc:
  "term_p st s (Suc n) =
     alt [map_p (join [atom st s n, modifiers s n])
            (ret (\<lambda>x. push (nth_val x 1) (nth_val x 0))),
          atom st s n]"
  by (intro ext) simp

lemma atom_Suc: "atom st s (Suc n) = base st s n (toplevel st s n)"
  by (intro ext) simp

lemma rules_agree:
  "agrees (toplevel st s n) (toplevel st s (Suc n)) \<and>
   agrees (no_pipes st s n) (no_pipes st s (Suc n)) \<and>
   agrees (term_p st s n) (term_p st s (Suc n)) \<and>
   agrees (atom st s n) (atom st s (Suc n))"
proof (induction n)
  case 0
  show ?case by (simp add: agrees_def)
next
  case (Suc n)
  from Suc have t: "agrees (toplevel st s n) (toplevel st s (Suc n))" by blast
  from Suc have np: "agrees (no_pipes st s n) (no_pipes st s (Suc n))" by blast
  from Suc have tm: "agrees (term_p st s n) (term_p st s (Suc n))" by blast
  from Suc have a: "agrees (atom st s n) (atom st s (Suc n))" by blast
  have "agrees
          (alt [map_p (join [no_pipes st s n, char_p s ''|'', toplevel st s n])
                  (ret (\<lambda>x. node (Str ''|'') [nth_val x 0, nth_val x 2])),
                no_pipes st s n])
          (alt [map_p (join [no_pipes st s (Suc n), char_p s ''|'', toplevel st s (Suc n)])
                  (ret (\<lambda>x. node (Str ''|'') [nth_val x 0, nth_val x 2])),
                no_pipes st s (Suc n)])"
    by (intro alt_agrees map_p_agrees join_agrees list.rel_intros t np agrees_refl)
  then have 1: "agrees (toplevel st s (Suc n)) (toplevel st s (Suc (Suc n)))"
    by (simp only: toplevel_Suc)
  have "agrees
          (alt [map_p (join [term_p st s n, no_pipes st s n])
                  (ret (\<lambda>x. node (Str '','') [nth_val x 0, nth_val x 1])),
                term_p st s n])
          (alt [map_p (join [term_p st s (Suc n), no_pipes st s (Suc n)])
                  (ret (\<lambda>x. node (Str '','') [nth_val x 0, nth_val x 1])),
                term_p st s (Suc n)])"
    by (intro alt_agrees map_p_agrees join_agrees list.rel_intros tm np)
  then have 2: "agrees (no_pipes st s (Suc n)) (no_pipes st s (Suc (Suc n)))"
    by (simp only: no_pipes_Suc)
  have "agrees
          (alt [map_p (join [atom st s n, modifiers s n])
                  (ret (\<lambda>x. push (nth_val x 1) (nth_val x 0))),
                atom st s n])
          (alt [map_p (join [atom st s (Suc n), modifiers s (Suc n)])
                  (ret (\<lambda>x. push (nth_val x 1) (nth_val x 0))),
                atom st s (Suc n)])"
    by (intro alt_agrees map_p_agrees join_agrees list.rel_intros a modifiers_agrees)
  then have 3: "agrees (term_p st s (Suc n)) (term_p st s (Suc (Suc n)))"
    by (simp only: term_p_Suc)
  have "agrees (base st s n (toplevel st s n)) (base st s (Suc n) (toplevel st s (Suc n)))"
    by (rule base_agrees [OF t])
  then have 4: "agrees (atom st s (Suc n)) (atom st s (Suc (Suc n)))"
    by (simp only: atom_Suc)
  from 1 2 3 4 show ?case by blast
qed

lemma toplevel_agrees_add: "agrees (toplevel st s n) (toplevel st s (n + m))"
proof (induction m)
  case 0
  show ?case by simp
next
  case (Suc m)
  from rules_agree [of st s "n + m"]
  have "agrees (toplevel st s (n + m)) (toplevel st s (Suc (n + m)))"
    by blast
  with Suc have "agrees (toplevel st s n) (toplevel st s (Suc (n + m)))"
    by (rule agrees_trans)
  then show ?case by (simp only: add_Suc_right)
qed

lemma regexp_parse_more_depth:
  assumes "regexp_parse n r st = Some x"
  shows "regexp_parse (n + m) r st = Some x"
proof (cases "pieces r")
  case None
  with assms show ?thesis by (simp add: regexp_parse_def)
next
  case (Some a)
  obtain s fl where a: "a = (s, fl)" by (cases a)
  let ?k = "\<lparr>groups = [], flags = \<lparr>flag_i = test_flag CHR ''i'' fl, flag_m = test_flag CHR ''m'' fl,
                        flag_g = test_flag CHR ''g'' fl\<rparr>\<rparr>"
  have ag: "agrees (join [toplevel st s n, end_p s]) (join [toplevel st s (n + m), end_p s])"
    by (intro join_agrees) (simp add: toplevel_agrees_add)
  from assms Some a obtain y where y: "join [toplevel st s n, end_p s] (Cursor VUndef 0) ?k = Some y"
    by (cases "join [toplevel st s n, end_p s] (Cursor VUndef 0) ?k") (auto simp: regexp_parse_def Let_def)
  from agreesD [OF ag y] have "join [toplevel st s (n + m), end_p s] (Cursor VUndef 0) ?k = Some y" .
  with assms Some a y show ?thesis
    by (simp add: regexp_parse_def Let_def)
qed

section \<open>Runs of the rules on the constructs of a pattern\<close>

declare toplevel.simps [simp del] no_pipes.simps [simp del] term_p.simps [simp del]
  atom.simps [simp del]

lemma registers_Nil [simp]: "registers [] k = k"
  by (simp add: registers_def)

lemma registers_registers [simp]: "registers gs (registers hs k) = registers (hs @ gs) k"
  by (simp add: registers_def)

lemma groups_registers [simp]: "groups (registers gs k) = groups k @ gs"
  by (simp add: registers_def)

lemma flags_registers [simp]: "flags (registers gs k) = flags k"
  by (simp add: registers_def)

lemma add_group_registers: "add_group g k = registers [g] k"
  by (simp add: add_group_def registers_def)

lemma string_p_mismatch:
  "j \<ge> length s \<or> s ! j \<noteq> c \<Longrightarrow> string_p s (c # cs) (Cursor x j) k = Some (None, k)"
  by (cases "drop j s") (auto simp: string_p_def hd_drop_conv_nth dest!: arg_cong [where f = hd])

lemma string_p_mismatch2:
  "Suc j < length s \<Longrightarrow> s ! Suc j \<noteq> c2 \<Longrightarrow>
   string_p s (c1 # c2 # cs) (Cursor x j) k = Some (None, k)"
proof -
  assume a: "Suc j < length s" "s ! Suc j \<noteq> c2"
  then have "drop j s = s ! j # s ! Suc j # drop (Suc (Suc j)) s"
    by (simp add: Cons_nth_drop_Suc)
  with a show ?thesis by (simp add: string_p_def)
qed

lemma string_p_one:
  "j < length s \<Longrightarrow> s ! j = c \<Longrightarrow>
   string_p s [c] (Cursor x j) k = Some (Some (Cursor (VStr [c]) (Suc j)), k)"
  by (simp add: string_p_def take_Suc_conv_app_nth [of 0, simplified] Cons_nth_drop_Suc [symmetric])

lemma map_join_fails:
  "f p k = Some (None, k') \<Longrightarrow> map_p (join (f # fs)) h p k = Some (None, k')"
  by (simp add: map_p_def join_def)

lemma map_join_miss:
  "f p k = Some (None, k) \<Longrightarrow> map_p (join (f # fs)) h p k = Some (None, k)"
  by (rule map_join_fails)

lemma char_p_miss:
  "j \<ge> length s \<or> s ! j \<notin> set c \<Longrightarrow> char_p s c (Cursor x j) k = Some (None, k)"
  by (auto simp: char_p_def)

lemma base_character:
  assumes "atom_mode st \<noteq> ''word''"
  shows "base st s n t p k =
     alt [positive_lookahead s t, negative_lookahead s t, forgetful_group s t, group s t,
          character_not_in s n, character_in s n, zero_width s, escaped s,
          escaped_slash s, control s, hex_code s, unicode s, backreference s,
          dot s, other s] p k"
  using assms
  by (cases p)
    (auto simp: base_def map_p_def join_def maybe_munch_spaces_def maybe_word_def zero_def ret_def
      split: option.splits)

lemma backreference_miss:
  "j \<ge> length s \<or> s ! j \<noteq> bs \<Longrightarrow> backreference s (Cursor x j) k = Some (None, k)"
  by (auto simp: backreference_def single_digit_backreference_def map_join_fails char_p_miss)

text \<open>The alternatives before the last all fail on a character that starts none of them.\<close>

lemma alt_one: "alt [w] p k = w p k"
  by (cases "w p k") (auto split: option.splits)

lemma leading_alternatives:
  assumes "j \<ge> length s \<or> s ! j \<notin> set (''([^$.'' @ [bs])"
  shows "alt [positive_lookahead s t, negative_lookahead s t, forgetful_group s t, group s t,
          character_not_in s n, character_in s n, zero_width s, escaped s,
          escaped_slash s, control s, hex_code s, unicode s, backreference s,
          dot s, w] (Cursor x j) k = w (Cursor x j) k"
proof -
  let ?p = "Cursor x j"
  from assms have paren: "j \<ge> length s \<or> s ! j \<noteq> CHR ''(''"
    and bracket: "j \<ge> length s \<or> s ! j \<noteq> CHR ''[''"
    and backslash: "j \<ge> length s \<or> s ! j \<noteq> bs"
    by auto
  have 1: "positive_lookahead s t ?p k = Some (None, k)"
    "negative_lookahead s t ?p k = Some (None, k)"
    "forgetful_group s t ?p k = Some (None, k)"
    "group s t ?p k = Some (None, k)"
    unfolding positive_lookahead_def negative_lookahead_def forgetful_group_def group_def
    by (rule map_join_fails, rule string_p_mismatch, rule paren)+
  have 2: "character_not_in s n ?p k = Some (None, k)"
    "character_in s n ?p k = Some (None, k)"
    unfolding character_not_in_def character_in_def
    by (rule map_join_fails, rule string_p_mismatch, rule bracket)+
  have 3: "zero_width s ?p k = Some (None, k)" "dot s ?p k = Some (None, k)"
    using assms by (auto simp: zero_width_def dot_def map_p_def char_p_def)
  have 4: "escaped s ?p k = Some (None, k)"
    unfolding escaped_def
    by (rule map_join_fails, rule char_p_miss) (use backslash in auto)
  have 5: "escaped_slash s ?p k = Some (None, k)"
    using string_p_mismatch [OF backslash] by (simp add: escaped_slash_def map_p_def)
  have 6: "control s ?p k = Some (None, k)" "hex_code s ?p k = Some (None, k)"
    "unicode s ?p k = Some (None, k)"
    unfolding control_def hex_code_def unicode_def
    by (rule map_join_fails, rule string_p_mismatch, rule backslash)+
  note 7 = backreference_miss [OF backslash]
  show ?thesis
    by (simp add: 1 2 3 4 5 6 7 split: option.splits)
qed

lemma atom_other:
  assumes "atom_mode st \<noteq> ''word''"
    and "j \<ge> length s \<or> s ! j \<notin> set (''([^$.'' @ [bs])"
  shows "atom st s (Suc n) (Cursor x j) k = other s (Cursor x j) k"
  by (simp add: atom.simps base_character [OF assms(1)] leading_alternatives [OF assms(2)]
      del: alt.simps)

lemma atom_literal:
  assumes "atom_mode st \<noteq> ''word''" and "j < length s" and "ordinary (s ! j)"
  shows "yields P (atom st s (Suc n)) j (\<lambda>k. VNode (Node (Str [s ! j]) [])) (Suc j) []"
proof -
  from assms(2,3) have "j \<ge> length s \<or> s ! j \<notin> set (''([^$.'' @ [bs])"
    by (auto simp: ordinary_def)
  from atom_other [OF assms(1) this] assms(2,3) show ?thesis
    by (auto simp: yields_def other_def map_p_def not_p_def char_p_def ordinary_def ret_def node1_def
        node_def take_Suc_conv_app_nth [of 0, simplified] Cons_nth_drop_Suc [symmetric])
qed

lemma atom_closes:
  assumes "atom_mode st \<noteq> ''word''" and "closes s j"
  shows "atom st s (Suc n) (Cursor x j) k = Some (None, k)"
proof -
  from assms(2) have "j \<ge> length s \<or> s ! j \<notin> set (''([^$.'' @ [bs])"
    by (auto simp: closes_def)
  from atom_other [OF assms(1) this] assms(2) show ?thesis
    by (auto simp: closes_def other_def map_p_def not_p_def char_p_def)
qed

lemma yieldsD:
  "yields P f j X j' gs \<Longrightarrow> P k \<Longrightarrow>
   f (Cursor x j) k = Some (Some (Cursor (X k) j'), registers gs k)"
  by (simp add: yields_def)

lemma modifiers_miss:
  assumes "j \<ge> length s \<or> s ! j \<notin> set ''*+{?''"
  shows "modifiers s n (Cursor x j) k = Some (None, k)"
proof -
  let ?p = "Cursor x j"
  have 1: "star s ?p k = Some (None, k)" "plus s ?p k = Some (None, k)"
    "question_mark s ?p k = Some (None, k)"
    using assms by (auto simp: star_def plus_def question_mark_def map_p_def char_p_def)
  have "char_p s ''{'' ?p k = Some (None, k)"
    using assms by (auto simp: char_p_def)
  then have 2: "repetition s n ?p k = Some (None, k)"
    by (simp add: repetition_def map_join_miss)
  have 3: "modifier s n ?p k = Some (None, k)"
    by (simp add: modifier_def 1 2)
  show ?thesis
    by (simp add: modifiers_def map_join_miss 1 3)
qed

lemma term_plain:
  assumes a: "yields P (atom st s n) j X j' gs"
    and m: "j' \<ge> length s \<or> s ! j' \<notin> set ''*+{?''"
    and stable: "\<And>k. P k \<Longrightarrow> P (registers gs k)"
  shows "yields P (term_p st s (Suc n)) j (\<lambda>k. X (registers gs k)) j' (gs @ gs)"
  unfolding yields_def
proof (intro allI impI)
  fix x k
  assume p: "P k"
  have 1: "map_p (join [atom st s n, modifiers s n]) h (Cursor x j) k = Some (None, registers gs k)"
    for h
    by (simp add: map_p_def join_def yieldsD [OF a p] modifiers_miss [OF m])
  show "term_p st s (Suc n) (Cursor x j) k =
          Some (Some (Cursor (X (registers gs k)) j'), registers (gs @ gs) k)"
    by (simp add: term_p.simps 1 yieldsD [OF a stable [OF p]])
qed

lemma term_closes:
  assumes "atom_mode st \<noteq> ''word''" and "closes s j"
  shows "term_p st s (Suc (Suc n)) (Cursor x j) k = Some (None, k)"
  by (simp add: term_p.simps map_join_miss atom_closes [OF assms])

lemma no_pipes_closes:
  assumes "atom_mode st \<noteq> ''word''" and "closes s j"
  shows "no_pipes st s (Suc (Suc (Suc n))) (Cursor x j) k = Some (None, k)"
  by (simp add: no_pipes.simps map_join_miss term_closes [OF assms])

lemma toplevel_closes:
  assumes "atom_mode st \<noteq> ''word''" and "closes s j"
  shows "toplevel st s (Suc (Suc (Suc (Suc n)))) (Cursor x j) k = Some (None, k)"
  by (simp add: toplevel.simps map_join_miss no_pipes_closes [OF assms])

lemma no_pipes_last:
  assumes t: "yields P (term_p st s (Suc (Suc (Suc n)))) j X j' gs"
    and mode: "atom_mode st \<noteq> ''word''"
    and c: "closes s j'"
    and stable: "\<And>k. P k \<Longrightarrow> P (registers gs k)"
  shows "yields P (no_pipes st s (Suc (Suc (Suc (Suc n))))) j (\<lambda>k. X (registers gs k)) j' (gs @ gs)"
  unfolding yields_def
proof (intro allI impI)
  fix x k
  assume p: "P k"
  let ?n = "Suc (Suc (Suc n))"
  have 1: "map_p (join [term_p st s ?n, no_pipes st s ?n]) h (Cursor x j) k
             = Some (None, registers gs k)" for h
    by (simp add: map_p_def join_def yieldsD [OF t p] no_pipes_closes [OF mode c])
  show "no_pipes st s (Suc ?n) (Cursor x j) k =
          Some (Some (Cursor (X (registers gs k)) j'), registers (gs @ gs) k)"
    by (simp add: no_pipes.simps 1 yieldsD [OF t stable [OF p]])
qed

lemma no_pipes_cons:
  assumes t: "yields P1 (term_p st s n) j X j1 gs1"
    and r: "yields P2 (no_pipes st s n) j1 Y j2 gs2"
    and pre: "\<And>k. P k \<Longrightarrow> P1 k \<and> P2 (registers gs1 k)"
  shows "yields P (no_pipes st s (Suc n)) j
           (\<lambda>k. VNode (Node (Str '','') [val_node (X k), val_node (Y (registers gs1 k))]))
           j2 (gs1 @ gs2)"
  unfolding yields_def
proof (intro allI impI)
  fix x k
  assume p: "P k"
  from pre [OF p] have p1: "P1 k" and p2: "P2 (registers gs1 k)" by simp_all
  show "no_pipes st s (Suc n) (Cursor x j) k =
          Some (Some (Cursor (VNode (Node (Str '','') [val_node (X k), val_node (Y (registers gs1 k))])) j2),
                registers (gs1 @ gs2) k)"
    by (simp add: no_pipes.simps map_p_def join_def yieldsD [OF t p1] yieldsD [OF r p2] ret_def
        node_def)
qed

lemma toplevel_no_pipe:
  assumes a: "yields P1 (no_pipes st s n) j X1 j1 gs1"
    and np: "j1 \<ge> length s \<or> s ! j1 \<noteq> CHR ''|''"
    and b: "yields P2 (no_pipes st s n) j X2 j2 gs2"
    and pre: "\<And>k. P k \<Longrightarrow> P1 k \<and> P2 (registers gs1 k)"
  shows "yields P (toplevel st s (Suc n)) j (\<lambda>k. X2 (registers gs1 k)) j2 (gs1 @ gs2)"
  unfolding yields_def
proof (intro allI impI)
  fix x k
  assume p: "P k"
  from pre [OF p] have p1: "P1 k" and p2: "P2 (registers gs1 k)" by simp_all
  from np have "char_p s ''|'' (Cursor y j1) k' = Some (None, k')" for y k'
    by (auto simp: char_p_def)
  then have 1: "map_p (join [no_pipes st s n, char_p s ''|'', toplevel st s n]) h (Cursor x j) k
             = Some (None, registers gs1 k)" for h
    by (simp add: map_p_def join_def yieldsD [OF a p1])
  show "toplevel st s (Suc n) (Cursor x j) k =
          Some (Some (Cursor (X2 (registers gs1 k)) j2), registers (gs1 @ gs2) k)"
    by (simp add: toplevel.simps 1 yieldsD [OF b p2])
qed

lemma atom_group:
  assumes mode: "atom_mode st \<noteq> ''word''"
    and op: "Suc j < length s" "s ! j = CHR ''(''" "s ! Suc j \<noteq> CHR ''?''"
    and t: "yields P (toplevel st s n) j1 (\<lambda>k. VNode c) j' gs"
    and j1: "j1 = Suc j"
    and cl: "j' < length s" "s ! j' = CHR '')''"
  shows "yields P (atom st s (Suc n)) j (\<lambda>k. VNode (Node (Str ''('') [c])) (Suc j')
           (gs @ [Node (Str ''('') [c]])"
  unfolding yields_def
proof (intro allI impI)
  fix x k
  assume p: "P k"
  let ?p = "Cursor x j"
  let ?t = "toplevel st s n"
  have 1: "positive_lookahead s ?t ?p k = Some (None, k)"
    "negative_lookahead s ?t ?p k = Some (None, k)"
    "forgetful_group s ?t ?p k = Some (None, k)"
    unfolding positive_lookahead_def negative_lookahead_def forgetful_group_def
    by (rule map_join_fails, rule string_p_mismatch2, rule op(1), rule op(3))+
  from op have o: "string_p s ''('' ?p k = Some (Some (Cursor (VStr ''('') (Suc j)), k)"
    by (intro string_p_one) simp_all
  from cl have c: "string_p s '')'' (Cursor y j') k' = Some (Some (Cursor (VStr '')'') (Suc j')), k')"
    for y k'
    by (intro string_p_one) simp_all
  have 2: "group s ?t ?p k =
      Some (Some (Cursor (VNode (Node (Str ''('') [c])) (Suc j')), registers (gs @ [Node (Str ''('') [c]]) k)"
    by (simp add: group_def map_p_def join_def o c yieldsD [OF t [unfolded j1] p] new_group_def
        node_def add_group_registers)
  show "atom st s (Suc n) ?p k =
      Some (Some (Cursor (VNode (Node (Str ''('') [c])) (Suc j')), registers (gs @ [Node (Str ''('') [c]]) k)"
    by (simp add: atom.simps base_character [OF mode] 1 2)
qed

lemma regexp_parse_yields:
  assumes "pieces r = Some (s, fl)"
    and "yields P (toplevel st s n) 0 X j gs"
    and "j = length s"
    and "P \<lparr>groups = [], flags = \<lparr>flag_i = test_flag CHR ''i'' fl, flag_m = test_flag CHR ''m'' fl,
                        flag_g = test_flag CHR ''g'' fl\<rparr>\<rparr>"
  shows "regexp_parse n r st =
     Some (Inr \<lparr>root = val_node (X \<lparr>groups = [], flags = \<lparr>flag_i = test_flag CHR ''i'' fl,
                         flag_m = test_flag CHR ''m'' fl, flag_g = test_flag CHR ''g'' fl\<rparr>\<rparr>),
                ctx = \<lparr>groups = gs, flags = \<lparr>flag_i = test_flag CHR ''i'' fl,
                         flag_m = test_flag CHR ''m'' fl, flag_g = test_flag CHR ''g'' fl\<rparr>\<rparr>\<rparr>)"
  by (simp add: regexp_parse_def assms(1) join_def yieldsD [OF assms(2,4)] assms(3) end_p_def registers_def)

text \<open>At the end of the pattern every rule fails, in either atom mode.\<close>

lemma many_char_end:
  "j \<ge> length s \<Longrightarrow> many (Suc n) (char_p s c) (Cursor x j) k = Some (None, k)"
  by (simp add: many_def char_p_def)

lemma atom_end:
  assumes "j \<ge> length s"
  shows "atom st s (Suc (Suc n)) (Cursor x j) k = Some (None, k)"
proof -
  let ?p = "Cursor x j"
  from assms have e: "j \<ge> length s \<or> s ! j \<notin> set (''([^$.'' @ [bs])"
    by simp
  from assms have o: "other s ?p k = Some (None, k)"
    by (simp add: other_def map_p_def not_p_def)
  from assms have w: "maybe_word st s (Suc n) ?p k = Some (None, k)"
    by (simp add: maybe_word_def o ident_def many_char_end map_p_def)
  from assms have m: "maybe_munch_spaces st s (Suc n) ?p k = Some (Some ?p, k)"
    by (simp add: maybe_munch_spaces_def many_char_end zero_def)
  show ?thesis
    by (simp add: atom.simps base_def map_p_def join_def m leading_alternatives [OF e] w
        del: alt.simps)
qed

lemma term_end:
  "j \<ge> length s \<Longrightarrow> term_p st s (Suc (Suc (Suc n))) (Cursor x j) k = Some (None, k)"
  by (simp add: term_p.simps map_join_miss atom_end)

lemma no_pipes_end:
  "j \<ge> length s \<Longrightarrow> no_pipes st s (Suc (Suc (Suc (Suc n)))) (Cursor x j) k = Some (None, k)"
  by (simp add: no_pipes.simps map_join_miss term_end)

lemma toplevel_end:
  "j \<ge> length s \<Longrightarrow>
   toplevel st s (Suc (Suc (Suc (Suc (Suc n))))) (Cursor x j) k = Some (None, k)"
  by (simp add: toplevel.simps map_join_miss no_pipes_end)

text \<open>A capturing group around one ordinary character, with no quantifier behind it.\<close>

lemma term_literal_group:
  assumes mode: "atom_mode st \<noteq> ''word''"
    and len: "Suc (Suc j) < length s"
    and op: "s ! j = CHR ''(''"
    and lit: "ordinary (s ! Suc j)"
    and cl: "s ! Suc (Suc j) = CHR '')''"
    and nm: "Suc (Suc (Suc j)) \<ge> length s \<or> s ! Suc (Suc (Suc j)) \<notin> set ''*+{?''"
  shows "yields (\<lambda>k. True) (term_p st s (Suc (Suc (Suc (Suc (Suc (Suc (Suc n)))))))) j
     (\<lambda>k. VNode (Node (Str ''('') [Node (Str [s ! Suc j]) []])) (Suc (Suc (Suc j)))
     [Node (Str ''('') [Node (Str [s ! Suc j]) []], Node (Str ''('') [Node (Str [s ! Suc j]) []]]"
proof -
  let ?T = "\<lambda>k::context. True"
  let ?c = "\<lambda>k::context. VNode (Node (Str [s ! Suc j]) [])"
  let ?G = "Node (Str ''('') [Node (Str [s ! Suc j]) []]"
  from len have len1: "Suc j < length s" by simp
  have a: "yields ?T (atom st s (Suc n)) (Suc j) ?c (Suc (Suc j)) []" for n
    by (rule atom_literal [OF mode len1 lit])
  have t: "yields ?T (term_p st s (Suc (Suc n))) (Suc j) ?c (Suc (Suc j)) []" for n
    using term_plain [where P = ?T, OF a [of n]] cl by simp
  have np: "yields ?T (no_pipes st s (Suc (Suc (Suc (Suc n))))) (Suc j) ?c (Suc (Suc j)) []" for n
    using no_pipes_last [where P = ?T, OF t [of "Suc n"] mode] cl len by (simp add: closes_def)
  have tl: "yields ?T (toplevel st s (Suc (Suc (Suc (Suc (Suc n)))))) (Suc j) ?c (Suc (Suc j)) []"
    for n
    using toplevel_no_pipe [where P = ?T, OF np [of n] _ np [of n]] cl by simp
  from lit have q: "s ! Suc j \<noteq> CHR ''?''"
    by (auto simp: ordinary_def)
  have g: "yields ?T (atom st s (Suc (Suc (Suc (Suc (Suc (Suc n))))))) j (\<lambda>k. VNode ?G)
      (Suc (Suc (Suc j))) ([] @ [?G])" for n
    by (rule atom_group [OF mode len1 op q tl [of n] _ len cl]) simp
  show ?thesis
    using term_plain [where P = ?T, OF g [of n] nm] by simp
qed

text \<open>A backslash before a digit from 1 to 9 reaches the backreference rule.\<close>

lemma atom_backslash_digit:
  assumes mode: "atom_mode st \<noteq> ''word''"
    and len: "Suc j < length s"
    and b: "s ! j = bs"
    and d: "s ! Suc j \<in> set ''123456789''"
    and r: "backreference s (Cursor x j) k = Some (Some q, k')"
  shows "atom st s (Suc n) (Cursor x j) k = Some (Some q, k')"
proof -
  let ?p = "Cursor x j"
  let ?t = "toplevel st s n"
  from b have paren: "j \<ge> length s \<or> s ! j \<noteq> CHR ''(''"
    and bracket: "j \<ge> length s \<or> s ! j \<noteq> CHR ''[''"
    by auto
  have 1: "positive_lookahead s ?t ?p k = Some (None, k)"
    "negative_lookahead s ?t ?p k = Some (None, k)"
    "forgetful_group s ?t ?p k = Some (None, k)"
    "group s ?t ?p k = Some (None, k)"
    unfolding positive_lookahead_def negative_lookahead_def forgetful_group_def group_def
    by (rule map_join_fails, rule string_p_mismatch, rule paren)+
  have 2: "character_not_in s n ?p k = Some (None, k)"
    "character_in s n ?p k = Some (None, k)"
    unfolding character_not_in_def character_in_def
    by (rule map_join_fails, rule string_p_mismatch, rule bracket)+
  have 3: "zero_width s ?p k = Some (None, k)"
    using b by (auto simp: zero_width_def map_p_def char_p_def)
  have 4: "escaped s ?p k = Some (None, k)"
    using len b d by (auto simp: escaped_def map_p_def join_def char_p_def)
  from d have nd: "s ! Suc j \<noteq> CHR ''/''" "s ! Suc j \<noteq> CHR ''c''" "s ! Suc j \<noteq> CHR ''x''"
    "s ! Suc j \<noteq> CHR ''u''"
    by auto
  have 5: "escaped_slash s ?p k = Some (None, k)"
    using string_p_mismatch2 [OF len nd(1)] by (simp add: escaped_slash_def map_p_def)
  have 6: "control s ?p k = Some (None, k)" "hex_code s ?p k = Some (None, k)"
    "unicode s ?p k = Some (None, k)"
    unfolding control_def hex_code_def unicode_def
    by (rule map_join_fails, rule string_p_mismatch2, rule len, rule nd)+
  show ?thesis
    by (simp add: atom.simps base_character [OF mode] 1 2 3 4 5 6 r)
qed

lemma atom_backreference:
  assumes mode: "atom_mode st \<noteq> ''word''"
    and len: "Suc j < length s"
    and b: "s ! j = bs"
    and d: "s ! Suc j \<in> set ''123456789''"
    and one: "Suc (Suc j) \<ge> length s \<or> s ! Suc (Suc j) \<notin> set ''0123456789''"
  shows "yields P (atom st s (Suc n)) j
     (\<lambda>k. VNode (Node (Str [bs]) [Node (Num (digit_val (s ! Suc j))) [],
                                   val_node (context_group k (digit_val (s ! Suc j)))]))
     (Suc (Suc j)) []"
  unfolding yields_def
proof (intro allI impI)
  fix x k
  from len have len0: "j < length s" by simp
  from d have dd: "s ! Suc j \<in> set ''0123456789''" by auto
  have two: "map_p (join [char_p s [bs], digit s, digit s]) h (Cursor x j) k = Some (None, k)" for h
    using len0 len b dd one by (auto simp: map_p_def join_def char_p_def digit_def)
  have sd: "single_digit_backreference s (Cursor x j) k =
      Some (Some (Cursor (VNode (Node (Str [bs]) [Node (Num (digit_val (s ! Suc j))) [],
                     val_node (context_group k (digit_val (s ! Suc j)))])) (Suc (Suc j))), k)"
    using len0 len b dd
    by (simp add: single_digit_backreference_def map_p_def join_def char_p_def digit_def
        node_def to_number_def)
  have "backreference s (Cursor x j) k =
      Some (Some (Cursor (VNode (Node (Str [bs]) [Node (Num (digit_val (s ! Suc j))) [],
                     val_node (context_group k (digit_val (s ! Suc j)))])) (Suc (Suc j))), k)"
    by (simp add: backreference_def two sd)
  from atom_backslash_digit [OF mode len b d this]
  show "atom st s (Suc n) (Cursor x j) k =
      Some (Some (Cursor (VNode (Node (Str [bs]) [Node (Num (digit_val (s ! Suc j))) [],
                     val_node (context_group k (digit_val (s ! Suc j)))])) (Suc (Suc j))),
            registers [] k)"
    by simp
qed

lemma atom_backreference_two:
  assumes mode: "atom_mode st \<noteq> ''word''"
    and len: "Suc (Suc j) < length s"
    and b: "s ! j = bs"
    and d1: "s ! Suc j \<in> set ''123456789''"
    and d2: "s ! Suc (Suc j) \<in> set ''0123456789''"
  shows "yields (\<lambda>k. 10 * digit_val (s ! Suc j) + digit_val (s ! Suc (Suc j)) \<le> length (groups k))
     (atom st s (Suc n)) j
     (\<lambda>k. VNode (Node (Str [bs])
        [Node (Num (10 * digit_val (s ! Suc j) + digit_val (s ! Suc (Suc j)))) [],
         val_node (context_group k (10 * digit_val (s ! Suc j) + digit_val (s ! Suc (Suc j))))]))
     (Suc (Suc (Suc j))) []"
  unfolding yields_def
proof (intro allI impI)
  fix x :: val and k :: "context"
  let ?N = "10 * digit_val (s ! Suc j) + digit_val (s ! Suc (Suc j))"
  assume p: "?N \<le> length (groups k)"
  from len have len1: "Suc j < length s" and len0: "j < length s" by simp_all
  from d1 have dd: "s ! Suc j \<in> set ''0123456789''" by auto
  have two: "map_p (join [char_p s [bs], digit s, digit s])
      (ret (\<lambda>x. VNum (to_number (val_string (nth_val x 1) @ val_string (nth_val x 2)))))
      (Cursor x j) k = Some (Some (Cursor (VNum ?N) (Suc (Suc (Suc j)))), k)"
    using len0 len1 len b dd d2
    by (simp add: map_p_def join_def char_p_def digit_def ret_def to_number_def)
  have "backreference s (Cursor x j) k =
      Some (Some (Cursor (VNode (Node (Str [bs]) [Node (Num ?N) [], val_node (context_group k ?N)]))
                    (Suc (Suc (Suc j)))), k)"
    using p unfolding backreference_def two by (simp add: node_def)
  from atom_backslash_digit [OF mode len1 b d1 this]
  show "atom st s (Suc n) (Cursor x j) k =
      Some (Some (Cursor (VNode (Node (Str [bs]) [Node (Num ?N) [], val_node (context_group k ?N)]))
                    (Suc (Suc (Suc j)))), registers [] k)"
    by simp
qed

lemma atom_backreference_one_of_two:
  assumes mode: "atom_mode st \<noteq> ''word''"
    and len: "Suc (Suc j) < length s"
    and b: "s ! j = bs"
    and d1: "s ! Suc j \<in> set ''123456789''"
    and d2: "s ! Suc (Suc j) \<in> set ''0123456789''"
  shows "yields (\<lambda>k. \<not> 10 * digit_val (s ! Suc j) + digit_val (s ! Suc (Suc j)) \<le> length (groups k))
     (atom st s (Suc n)) j
     (\<lambda>k. VNode (Node (Str [bs]) [Node (Num (digit_val (s ! Suc j))) [],
                                   val_node (context_group k (digit_val (s ! Suc j)))]))
     (Suc (Suc j)) []"
  unfolding yields_def
proof (intro allI impI)
  fix x :: val and k :: "context"
  let ?N = "10 * digit_val (s ! Suc j) + digit_val (s ! Suc (Suc j))"
  assume p: "\<not> ?N \<le> length (groups k)"
  from len have len1: "Suc j < length s" and len0: "j < length s" by simp_all
  from d1 have dd: "s ! Suc j \<in> set ''0123456789''" by auto
  have two: "map_p (join [char_p s [bs], digit s, digit s])
      (ret (\<lambda>x. VNum (to_number (val_string (nth_val x 1) @ val_string (nth_val x 2)))))
      (Cursor x j) k = Some (Some (Cursor (VNum ?N) (Suc (Suc (Suc j)))), k)"
    using len0 len1 len b dd d2
    by (simp add: map_p_def join_def char_p_def digit_def ret_def to_number_def)
  have sd: "single_digit_backreference s (Cursor x j) k =
      Some (Some (Cursor (VNode (Node (Str [bs]) [Node (Num (digit_val (s ! Suc j))) [],
                     val_node (context_group k (digit_val (s ! Suc j)))])) (Suc (Suc j))), k)"
    using len0 len1 b dd
    by (simp add: single_digit_backreference_def map_p_def join_def char_p_def digit_def
        node_def to_number_def)
  have "backreference s (Cursor x j) k =
      Some (Some (Cursor (VNode (Node (Str [bs]) [Node (Num (digit_val (s ! Suc j))) [],
                     val_node (context_group k (digit_val (s ! Suc j)))])) (Suc (Suc j))), k)"
    using p unfolding backreference_def two by (simp add: sd)
  from atom_backslash_digit [OF mode len1 b d1 this]
  show "atom st s (Suc n) (Cursor x j) k =
      Some (Some (Cursor (VNode (Node (Str [bs]) [Node (Num (digit_val (s ! Suc j))) [],
                     val_node (context_group k (digit_val (s ! Suc j)))])) (Suc (Suc j))),
            registers [] k)"
    by simp
qed

section \<open>The pattern \<open>(a)\<close>\<close>

lemma character_mode: "atom_mode default_settings \<noteq> ''word''"
  by (simp add: default_settings_def)

lemma group_a_yields:
  "yields (\<lambda>k. True) (toplevel default_settings ''(a)'' (Suc (Suc (Suc (Suc (Suc (Suc (Suc (Suc (Suc n))))))))))
     0 (\<lambda>k. VNode (Node (Str ''('') [Node (Str ''a'') []])) 3
     (replicate 8 (Node (Str ''('') [Node (Str ''a'') []]))"
proof -
  let ?s = "''(a)''"
  let ?st = default_settings
  let ?T = "\<lambda>k::context. True"
  note m = character_mode
  have a1: "yields ?T (atom ?st ?s (Suc n)) 1 (\<lambda>k. VNode (Node (Str ''a'') [])) 2 []" for n
    using atom_literal [where P = ?T and j = 1 and s = ?s and n = n, OF m] by (simp add: ordinary_def numeral_2_eq_2 [symmetric])
  have t1: "yields ?T (term_p ?st ?s (Suc (Suc n))) 1 (\<lambda>k. VNode (Node (Str ''a'') [])) 2 []" for n
    using term_plain [where P = ?T, OF a1 [of n]] by (simp add: numeral_2_eq_2 [symmetric])
  have n1: "yields ?T (no_pipes ?st ?s (Suc (Suc (Suc (Suc n))))) 1 (\<lambda>k. VNode (Node (Str ''a'') [])) 2 []"
    for n
    using no_pipes_last [where P = ?T, OF t1 [of "Suc n"] m] by (simp add: closes_def numeral_2_eq_2 [symmetric])
  have l1: "yields ?T (toplevel ?st ?s (Suc (Suc (Suc (Suc (Suc n)))))) 1 (\<lambda>k. VNode (Node (Str ''a'') [])) 2 []"
    for n
    using toplevel_no_pipe [where P = ?T, OF n1 [of n] _ n1 [of n]] by (simp add: numeral_2_eq_2 [symmetric])
  let ?A = "Node (Str ''('') [Node (Str ''a'') []]"
  have a0: "yields ?T (atom ?st ?s (Suc (Suc (Suc (Suc (Suc (Suc n))))))) 0 (\<lambda>k. VNode ?A) 3 [?A]" for n
  proof -
    have "yields ?T (atom ?st ?s (Suc (Suc (Suc (Suc (Suc (Suc n))))))) 0 (\<lambda>k. VNode ?A) (Suc 2) ([] @ [?A])"
      by (rule atom_group [OF m _ _ _ l1 [of n]]) simp_all
    then show ?thesis by simp
  qed
  have t0: "yields ?T (term_p ?st ?s (Suc (Suc (Suc (Suc (Suc (Suc (Suc n)))))))) 0 (\<lambda>k. VNode ?A) 3 [?A, ?A]"
    for n
    using term_plain [where P = ?T, OF a0 [of n]] by (simp add: numeral_2_eq_2 [symmetric])
  have n0: "yields ?T (no_pipes ?st ?s (Suc (Suc (Suc (Suc (Suc (Suc (Suc (Suc n))))))))) 0 (\<lambda>k. VNode ?A) 3
      [?A, ?A, ?A, ?A]" for n
    using no_pipes_last [where P = ?T, OF t0 [of n] m] by (simp add: closes_def numeral_2_eq_2 [symmetric])
  have r: "replicate 8 ?A = [?A, ?A, ?A, ?A, ?A, ?A, ?A, ?A]"
    by (simp add: numeral_eq_Suc)
  show ?thesis
    unfolding r
    using toplevel_no_pipe [where P = ?T, OF n0 [of n] _ n0 [of n]] by simp
qed

lemma parse_group_a:
  "regexp_parse (Suc (Suc (Suc (Suc (Suc (Suc (Suc (Suc (Suc n))))))))) ''(a)'' default_settings =
   Some (Inr \<lparr>root = Node (Str ''('') [Node (Str ''a'') []],
     ctx = \<lparr>groups = replicate 8 (Node (Str ''('') [Node (Str ''a'') []]),
       flags = \<lparr>flag_i = True, flag_m = False, flag_g = False\<rparr>\<rparr>\<rparr>)"
proof -
  have p: "pieces ''(a)'' = Some (''(a)'', None)"
    by (simp add: pieces_def delimited_def is_line_terminator_def)
  show ?thesis
    using regexp_parse_yields [OF p group_a_yields [of n]] by (simp add: test_flag_def numeral_2_eq_2 [symmetric])
qed

section \<open>The pattern \<open>((a)(b))\<close>\<close>

lemma nested_groups_yields:
  "yields (\<lambda>k. True)
     (toplevel default_settings ''((a)(b))''
        (Suc (Suc (Suc (Suc (Suc (Suc (Suc (Suc (Suc (Suc (Suc (Suc (Suc (Suc n)))))))))))))))
     0 (\<lambda>k. VNode group_ab) 8
     (one_pass @ one_pass @ one_pass @ one_pass @ one_pass @ one_pass @ one_pass @ one_pass)"
proof -
  let ?s = "''((a)(b))''"
  let ?st = default_settings
  let ?T = "\<lambda>k::context. True"
  let ?a = "\<lambda>k::context. VNode (Node (Str ''a'') [])"
  let ?b = "\<lambda>k::context. VNode (Node (Str ''b'') [])"
  let ?A = "\<lambda>k::context. VNode group_a"
  let ?B = "\<lambda>k::context. VNode group_b"
  let ?AB = "\<lambda>k::context. VNode (Node (Str '','') [group_a, group_b])"
  let ?O = "\<lambda>k::context. VNode group_ab"
  note m = character_mode
  note [simp] = numeral_2_eq_2 [symmetric] closes_def ordinary_def group_a_def group_b_def
    group_ab_def
  txt \<open>The group \<open>(a)\<close> at offset 1.\<close>
  have a2: "yields ?T (atom ?st ?s (Suc n)) 2 ?a 3 []" for n
    using atom_literal [where P = ?T and j = 2 and s = ?s and n = n, OF m] by simp
  have t2: "yields ?T (term_p ?st ?s (Suc (Suc n))) 2 ?a 3 []" for n
    using term_plain [where P = ?T, OF a2 [of n]] by simp
  have n2: "yields ?T (no_pipes ?st ?s (Suc (Suc (Suc (Suc n))))) 2 ?a 3 []" for n
    using no_pipes_last [where P = ?T, OF t2 [of "Suc n"] m] by simp
  have l2: "yields ?T (toplevel ?st ?s (Suc (Suc (Suc (Suc (Suc n)))))) 2 ?a 3 []" for n
    using toplevel_no_pipe [where P = ?T, OF n2 [of n] _ n2 [of n]] by simp
  have a1: "yields ?T (atom ?st ?s (Suc (Suc (Suc (Suc (Suc (Suc n))))))) 1 ?A 4 [group_a]" for n
  proof -
    have "yields ?T (atom ?st ?s (Suc (Suc (Suc (Suc (Suc (Suc n))))))) 1
        (\<lambda>k. VNode (Node (Str ''('') [Node (Str ''a'') []])) (Suc 3)
        ([] @ [Node (Str ''('') [Node (Str ''a'') []]])"
      by (rule atom_group [OF m _ _ _ l2 [of n]]) simp_all
    then show ?thesis by simp
  qed
  have t1: "yields ?T (term_p ?st ?s (Suc (Suc (Suc (Suc (Suc (Suc (Suc n)))))))) 1 ?A 4
      [group_a, group_a]" for n
    using term_plain [where P = ?T, OF a1 [of n]] by simp
  txt \<open>The group \<open>(b)\<close> at offset 4, the last term of its sequence.\<close>
  have a5: "yields ?T (atom ?st ?s (Suc n)) 5 ?b 6 []" for n
    using atom_literal [where P = ?T and j = 5 and s = ?s and n = n, OF m] by simp
  have t5: "yields ?T (term_p ?st ?s (Suc (Suc n))) 5 ?b 6 []" for n
    using term_plain [where P = ?T, OF a5 [of n]] by simp
  have n5: "yields ?T (no_pipes ?st ?s (Suc (Suc (Suc (Suc n))))) 5 ?b 6 []" for n
    using no_pipes_last [where P = ?T, OF t5 [of "Suc n"] m] by simp
  have l5: "yields ?T (toplevel ?st ?s (Suc (Suc (Suc (Suc (Suc n)))))) 5 ?b 6 []" for n
    using toplevel_no_pipe [where P = ?T, OF n5 [of n] _ n5 [of n]] by simp
  have a4: "yields ?T (atom ?st ?s (Suc (Suc (Suc (Suc (Suc (Suc n))))))) 4 ?B 7 [group_b]" for n
  proof -
    have "yields ?T (atom ?st ?s (Suc (Suc (Suc (Suc (Suc (Suc n))))))) 4
        (\<lambda>k. VNode (Node (Str ''('') [Node (Str ''b'') []])) (Suc 6)
        ([] @ [Node (Str ''('') [Node (Str ''b'') []]])"
      by (rule atom_group [OF m _ _ _ l5 [of n]]) simp_all
    then show ?thesis by simp
  qed
  have t4: "yields ?T (term_p ?st ?s (Suc (Suc (Suc (Suc (Suc (Suc (Suc n)))))))) 4 ?B 7
      [group_b, group_b]" for n
    using term_plain [where P = ?T, OF a4 [of n]] by simp
  have n4: "yields ?T (no_pipes ?st ?s (Suc (Suc (Suc (Suc (Suc (Suc (Suc (Suc n))))))))) 4 ?B 7
      [group_b, group_b, group_b, group_b]" for n
    using no_pipes_last [where P = ?T, OF t4 [of n] m] by simp
  txt \<open>The sequence \<open>(a)(b)\<close> and the group around it.\<close>
  have n1: "yields ?T (no_pipes ?st ?s (Suc (Suc (Suc (Suc (Suc (Suc (Suc (Suc (Suc n)))))))))) 1 ?AB 7
      [group_a, group_a, group_b, group_b, group_b, group_b]" for n
    using no_pipes_cons [where P = ?T, OF t1 [of "Suc n"] n4 [of n]] by simp
  have l1: "yields ?T (toplevel ?st ?s (Suc (Suc (Suc (Suc (Suc (Suc (Suc (Suc (Suc (Suc n))))))))))) 1 ?AB 7
      [group_a, group_a, group_b, group_b, group_b, group_b,
       group_a, group_a, group_b, group_b, group_b, group_b]" for n
    using toplevel_no_pipe [where P = ?T, OF n1 [of n] _ n1 [of n]] by simp
  have a0: "yields ?T (atom ?st ?s (Suc (Suc (Suc (Suc (Suc (Suc (Suc (Suc (Suc (Suc (Suc n)))))))))))) 0 ?O 8
      one_pass" for n
  proof -
    have "yields ?T (atom ?st ?s (Suc (Suc (Suc (Suc (Suc (Suc (Suc (Suc (Suc (Suc (Suc n)))))))))))) 0
        (\<lambda>k. VNode (Node (Str ''('') [Node (Str '','') [group_a, group_b]])) (Suc 7)
        ([group_a, group_a, group_b, group_b, group_b, group_b,
          group_a, group_a, group_b, group_b, group_b, group_b]
         @ [Node (Str ''('') [Node (Str '','') [group_a, group_b]]])"
      by (rule atom_group [OF m _ _ _ l1 [of n]]) simp_all
    then show ?thesis by (simp add: one_pass_def)
  qed
  have t0: "yields ?T (term_p ?st ?s (Suc (Suc (Suc (Suc (Suc (Suc (Suc (Suc (Suc (Suc (Suc (Suc n))))))))))))) 0 ?O 8
      (one_pass @ one_pass)" for n
    using term_plain [where P = ?T, OF a0 [of n]] by (simp del: group_a_def group_b_def group_ab_def)
  have n0: "yields ?T (no_pipes ?st ?s (Suc (Suc (Suc (Suc (Suc (Suc (Suc (Suc (Suc (Suc (Suc (Suc (Suc n)))))))))))))) 0 ?O 8
      (one_pass @ one_pass @ one_pass @ one_pass)" for n
    using no_pipes_last [where P = ?T, OF t0 [of n] m] by (simp del: group_a_def group_b_def group_ab_def)
  show ?thesis
    using toplevel_no_pipe [where P = ?T, OF n0 [of n] _ n0 [of n]]
    by (simp del: group_a_def group_b_def group_ab_def)
qed

lemma add_14:
  "14 + n = Suc (Suc (Suc (Suc (Suc (Suc (Suc (Suc (Suc (Suc (Suc (Suc (Suc (Suc n)))))))))))))"
  by simp

lemma match_groups_nested:
  "regexp_match_groups (14 + n) ''((a)(b))'' default_settings =
     Some (Inr (one_pass @ one_pass @ one_pass @ one_pass @ one_pass @ one_pass @ one_pass @ one_pass))"
proof -
  have p: "pieces ''((a)(b))'' = Some (''((a)(b))'', None)"
    by (simp add: pieces_def delimited_def is_line_terminator_def)
  show ?thesis
    unfolding add_14 regexp_match_groups_def
    using regexp_parse_yields [OF p nested_groups_yields [of n]]
    by (simp add: match_groups_def)
qed

section \<open>Backreferences after two and three groups\<close>

lemma three_groups_then_3:
  "yields (\<lambda>k. True)
     (toplevel default_settings (''(a)(b)(c)'' @ [bs, CHR ''3''])
        (Suc (Suc (Suc (Suc (Suc (Suc (Suc (Suc (Suc (Suc (Suc n))))))))))))
     0 (\<lambda>k. VNode (Node (Str '','') [group_a, Node (Str '','') [group_b, Node (Str '','')
            [group_c, Node (Str [bs]) [Node (Num 3) [],
               val_node (context_group
                 (registers [group_a, group_a, group_b, group_b, group_c, group_c,
                             group_a, group_a, group_b, group_b, group_c, group_c] k) 3)]]]]))
     11
     [group_a, group_a, group_b, group_b, group_c, group_c,
      group_a, group_a, group_b, group_b, group_c, group_c]"
proof -
  let ?s = "''(a)(b)(c)'' @ [bs, CHR ''3'']"
  let ?st = default_settings
  let ?T = "\<lambda>k::context. True"
  let ?R = "\<lambda>k. Node (Str [bs]) [Node (Num 3) [], val_node (context_group k 3)]"
  note m = character_mode
  note [simp] = numeral_2_eq_2 [symmetric] closes_def ordinary_def digit_val_def
  have ta: "yields ?T (term_p ?st ?s (Suc (Suc (Suc (Suc (Suc (Suc (Suc n)))))))) 0
      (\<lambda>k. VNode group_a) 3 [group_a, group_a]" for n
    using term_literal_group [OF m, of 0 ?s n] by (simp add: group_a_def)
  have tb: "yields ?T (term_p ?st ?s (Suc (Suc (Suc (Suc (Suc (Suc (Suc n)))))))) 3
      (\<lambda>k. VNode group_b) 6 [group_b, group_b]" for n
    using term_literal_group [OF m, of 3 ?s n] by (simp add: group_b_def)
  have tc: "yields ?T (term_p ?st ?s (Suc (Suc (Suc (Suc (Suc (Suc (Suc n)))))))) 6
      (\<lambda>k. VNode group_c) 9 [group_c, group_c]" for n
    using term_literal_group [OF m, of 6 ?s n] by (simp add: group_c_def)
  have a9: "yields ?T (atom ?st ?s (Suc n)) 9 (\<lambda>k. VNode (?R k)) 11 []" for n
    using atom_backreference [where P = ?T and j = 9 and s = ?s and n = n, OF m] by simp
  have t9: "yields ?T (term_p ?st ?s (Suc (Suc n))) 9 (\<lambda>k. VNode (?R k)) 11 []" for n
    using term_plain [where P = ?T, OF a9 [of n]] by simp
  have n9: "yields ?T (no_pipes ?st ?s (Suc (Suc (Suc (Suc n))))) 9 (\<lambda>k. VNode (?R k)) 11 []" for n
    using no_pipes_last [where P = ?T, OF t9 [of "Suc n"] m] by simp
  have n6: "yields ?T (no_pipes ?st ?s (Suc (Suc (Suc (Suc (Suc (Suc (Suc (Suc n))))))))) 6
      (\<lambda>k. VNode (Node (Str '','') [group_c, ?R (registers [group_c, group_c] k)])) 11
      [group_c, group_c]" for n
    using no_pipes_cons [where P = ?T, OF tc [of n] n9 [of "Suc (Suc (Suc n))"]] by simp
  have n3: "yields ?T (no_pipes ?st ?s (Suc (Suc (Suc (Suc (Suc (Suc (Suc (Suc (Suc n)))))))))) 3
      (\<lambda>k. VNode (Node (Str '','') [group_b, Node (Str '','') [group_c,
            ?R (registers [group_b, group_b, group_c, group_c] k)]])) 11
      [group_b, group_b, group_c, group_c]" for n
    using no_pipes_cons [where P = ?T, OF tb [of "Suc n"] n6 [of n]] by simp
  have n0: "yields ?T (no_pipes ?st ?s (Suc (Suc (Suc (Suc (Suc (Suc (Suc (Suc (Suc (Suc n))))))))))) 0
      (\<lambda>k. VNode (Node (Str '','') [group_a, Node (Str '','') [group_b, Node (Str '','') [group_c,
            ?R (registers [group_a, group_a, group_b, group_b, group_c, group_c] k)]]])) 11
      [group_a, group_a, group_b, group_b, group_c, group_c]" for n
    using no_pipes_cons [where P = ?T, OF ta [of "Suc (Suc n)"] n3 [of n]] by simp
  show ?thesis
    using toplevel_no_pipe [where P = ?T, OF n0 [of n] _ n0 [of n]] by simp
qed

lemma add_11: "11 + n = Suc (Suc (Suc (Suc (Suc (Suc (Suc (Suc (Suc (Suc (Suc n))))))))))"
  by simp

lemma root_three_groups_then_3:
  "regexp_root (11 + n) (''(a)(b)(c)'' @ [bs, CHR ''3'']) default_settings =
     Some (Inr (Node (Str '','') [group_a, Node (Str '','') [group_b, Node (Str '','')
            [group_c, Node (Str [bs]) [Node (Num 3) [], group_b]]]]))"
proof -
  have p: "pieces (''(a)(b)(c)'' @ [bs, CHR ''3'']) = Some (''(a)(b)(c)'' @ [bs, CHR ''3''], None)"
    by (simp add: pieces_def delimited_def is_line_terminator_def)
  show ?thesis
    unfolding add_11 regexp_root_def
    using regexp_parse_yields [OF p three_groups_then_3 [of n]]
    by (simp add: context_group_def)
qed

lemma two_groups_then_1:
  "yields (\<lambda>k. True)
     (toplevel default_settings (''(a)(b)'' @ [bs, CHR ''1''])
        (Suc (Suc (Suc (Suc (Suc (Suc (Suc (Suc (Suc (Suc n)))))))))))
     0 (\<lambda>k. VNode (Node (Str '','') [group_a, Node (Str '','')
            [group_b, Node (Str [bs]) [Node (Num 1) [],
               val_node (context_group
                 (registers [group_a, group_a, group_b, group_b,
                             group_a, group_a, group_b, group_b] k) 1)]]]))
     8
     [group_a, group_a, group_b, group_b, group_a, group_a, group_b, group_b]"
proof -
  let ?s = "''(a)(b)'' @ [bs, CHR ''1'']"
  let ?st = default_settings
  let ?T = "\<lambda>k::context. True"
  let ?R = "\<lambda>k. Node (Str [bs]) [Node (Num 1) [], val_node (context_group k 1)]"
  note m = character_mode
  note [simp] = numeral_2_eq_2 [symmetric] closes_def ordinary_def digit_val_def
  have ta: "yields ?T (term_p ?st ?s (Suc (Suc (Suc (Suc (Suc (Suc (Suc n)))))))) 0
      (\<lambda>k. VNode group_a) 3 [group_a, group_a]" for n
    using term_literal_group [OF m, of 0 ?s n] by (simp add: group_a_def)
  have tb: "yields ?T (term_p ?st ?s (Suc (Suc (Suc (Suc (Suc (Suc (Suc n)))))))) 3
      (\<lambda>k. VNode group_b) 6 [group_b, group_b]" for n
    using term_literal_group [OF m, of 3 ?s n] by (simp add: group_b_def)
  have a6: "yields ?T (atom ?st ?s (Suc n)) 6 (\<lambda>k. VNode (?R k)) 8 []" for n
    using atom_backreference [where P = ?T and j = 6 and s = ?s and n = n, OF m] by simp
  have t6: "yields ?T (term_p ?st ?s (Suc (Suc n))) 6 (\<lambda>k. VNode (?R k)) 8 []" for n
    using term_plain [where P = ?T, OF a6 [of n]] by simp
  have n6: "yields ?T (no_pipes ?st ?s (Suc (Suc (Suc (Suc n))))) 6 (\<lambda>k. VNode (?R k)) 8 []" for n
    using no_pipes_last [where P = ?T, OF t6 [of "Suc n"] m] by simp
  have n3: "yields ?T (no_pipes ?st ?s (Suc (Suc (Suc (Suc (Suc (Suc (Suc (Suc n))))))))) 3
      (\<lambda>k. VNode (Node (Str '','') [group_b, ?R (registers [group_b, group_b] k)])) 8
      [group_b, group_b]" for n
    using no_pipes_cons [where P = ?T, OF tb [of n] n6 [of "Suc (Suc (Suc n))"]] by simp
  have n0: "yields ?T (no_pipes ?st ?s (Suc (Suc (Suc (Suc (Suc (Suc (Suc (Suc (Suc n)))))))))) 0
      (\<lambda>k. VNode (Node (Str '','') [group_a, Node (Str '','') [group_b,
            ?R (registers [group_a, group_a, group_b, group_b] k)]])) 8
      [group_a, group_a, group_b, group_b]" for n
    using no_pipes_cons [where P = ?T, OF ta [of "Suc n"] n3 [of n]] by simp
  show ?thesis
    using toplevel_no_pipe [where P = ?T, OF n0 [of n] _ n0 [of n]] by simp
qed

lemma add_10: "10 + n = Suc (Suc (Suc (Suc (Suc (Suc (Suc (Suc (Suc (Suc n)))))))))"
  by simp

lemma root_two_groups_then_1:
  "regexp_root (10 + n) (''(a)(b)'' @ [bs, CHR ''1'']) default_settings =
     Some (Inr (Node (Str '','') [group_a, Node (Str '','')
            [group_b, Node (Str [bs]) [Node (Num 1) [], group_a]]]))"
proof -
  have p: "pieces (''(a)(b)'' @ [bs, CHR ''1'']) = Some (''(a)(b)'' @ [bs, CHR ''1''], None)"
    by (simp add: pieces_def delimited_def is_line_terminator_def)
  show ?thesis
    unfolding add_10 regexp_root_def
    using regexp_parse_yields [OF p two_groups_then_1 [of n]]
    by (simp add: context_group_def)
qed

lemma three_groups_then_10:
  "yields (\<lambda>k. groups k = [])
     (toplevel default_settings (''(a)(b)(c)'' @ [bs, CHR ''1'', CHR ''0''])
        (Suc (Suc (Suc (Suc (Suc (Suc (Suc (Suc (Suc (Suc (Suc n))))))))))))
     0 (\<lambda>k. VNode (Node (Str '','') [group_a, Node (Str '','') [group_b, Node (Str '','')
            [group_c, Node (Str [bs]) [Node (Num 10) [],
               val_node (context_group
                 (registers [group_a, group_a, group_b, group_b, group_c, group_c,
                             group_a, group_a, group_b, group_b, group_c, group_c] k) 10)]]]]))
     12
     [group_a, group_a, group_b, group_b, group_c, group_c,
      group_a, group_a, group_b, group_b, group_c, group_c]"
proof -
  let ?s = "''(a)(b)(c)'' @ [bs, CHR ''1'', CHR ''0'']"
  let ?st = default_settings
  let ?T = "\<lambda>k::context. True"
  let ?R1 = "\<lambda>k. Node (Str [bs]) [Node (Num 1) [], val_node (context_group k 1)]"
  let ?R10 = "\<lambda>k. Node (Str [bs]) [Node (Num 10) [], val_node (context_group k 10)]"
  let ?zero = "Node (Str ''0'') []"
  note m = character_mode
  note [simp] = numeral_2_eq_2 [symmetric] closes_def ordinary_def digit_val_def
  have ta: "yields ?T (term_p ?st ?s (Suc (Suc (Suc (Suc (Suc (Suc (Suc n)))))))) 0
      (\<lambda>k. VNode group_a) 3 [group_a, group_a]" for n
    using term_literal_group [OF m, of 0 ?s n] by (simp add: group_a_def)
  have tb: "yields ?T (term_p ?st ?s (Suc (Suc (Suc (Suc (Suc (Suc (Suc n)))))))) 3
      (\<lambda>k. VNode group_b) 6 [group_b, group_b]" for n
    using term_literal_group [OF m, of 3 ?s n] by (simp add: group_b_def)
  have tc: "yields ?T (term_p ?st ?s (Suc (Suc (Suc (Suc (Suc (Suc (Suc n)))))))) 6
      (\<lambda>k. VNode group_c) 9 [group_c, group_c]" for n
    using term_literal_group [OF m, of 6 ?s n] by (simp add: group_c_def)
  txt \<open>With fewer than ten entries in the registry: \<open>\1\<close>, then the atom \<open>0\<close>.\<close>
  have a9: "yields (\<lambda>k. length (groups k) < 10) (atom ?st ?s (Suc n)) 9 (\<lambda>k. VNode (?R1 k)) 11 []"
    for n
    using atom_backreference_one_of_two [where j = 9 and s = ?s and n = n, OF m]
    by (simp add: not_le)
  have t9: "yields (\<lambda>k. length (groups k) < 10) (term_p ?st ?s (Suc (Suc n))) 9
      (\<lambda>k. VNode (?R1 k)) 11 []" for n
    using term_plain [where P = "\<lambda>k. length (groups k) < 10", OF a9 [of n]] by simp
  have a11: "yields ?T (atom ?st ?s (Suc n)) 11 (\<lambda>k. VNode ?zero) 12 []" for n
    using atom_literal [where P = ?T and j = 11 and s = ?s and n = n, OF m] by simp
  have t11: "yields ?T (term_p ?st ?s (Suc (Suc n))) 11 (\<lambda>k. VNode ?zero) 12 []" for n
    using term_plain [where P = ?T, OF a11 [of n]] by simp
  have n11: "yields ?T (no_pipes ?st ?s (Suc (Suc (Suc (Suc n))))) 11 (\<lambda>k. VNode ?zero) 12 []"
    for n
    using no_pipes_last [where P = ?T, OF t11 [of "Suc n"] m] by simp
  have n9: "yields (\<lambda>k. length (groups k) < 10) (no_pipes ?st ?s (Suc (Suc (Suc (Suc (Suc n)))))) 9
      (\<lambda>k. VNode (Node (Str '','') [?R1 k, ?zero])) 12 []" for n
    using no_pipes_cons [where P = "\<lambda>k. length (groups k) < 10",
        OF t9 [of "Suc (Suc n)"] n11 [of n]] by simp
  have n6: "yields (\<lambda>k. length (groups k) < 8)
      (no_pipes ?st ?s (Suc (Suc (Suc (Suc (Suc (Suc (Suc (Suc n))))))))) 6
      (\<lambda>k. VNode (Node (Str '','') [group_c,
                    Node (Str '','') [?R1 (registers [group_c, group_c] k), ?zero]])) 12
      [group_c, group_c]" for n
    using no_pipes_cons [where P = "\<lambda>k. length (groups k) < 8",
        OF tc [of n] n9 [of "Suc (Suc n)"]] by simp
  have n3: "yields (\<lambda>k. length (groups k) < 6)
      (no_pipes ?st ?s (Suc (Suc (Suc (Suc (Suc (Suc (Suc (Suc (Suc n)))))))))) 3
      (\<lambda>k. VNode (Node (Str '','') [group_b, Node (Str '','') [group_c,
                    Node (Str '','') [?R1 (registers [group_b, group_b, group_c, group_c] k), ?zero]]]))
      12 [group_b, group_b, group_c, group_c]" for n
    using no_pipes_cons [where P = "\<lambda>k. length (groups k) < 6",
        OF tb [of "Suc n"] n6 [of n]] by simp
  have n0: "yields (\<lambda>k. length (groups k) < 4)
      (no_pipes ?st ?s (Suc (Suc (Suc (Suc (Suc (Suc (Suc (Suc (Suc (Suc n))))))))))) 0
      (\<lambda>k. VNode (Node (Str '','') [group_a, Node (Str '','') [group_b, Node (Str '','') [group_c,
                    Node (Str '','')
                      [?R1 (registers [group_a, group_a, group_b, group_b, group_c, group_c] k),
                       ?zero]]]]))
      12 [group_a, group_a, group_b, group_b, group_c, group_c]" for n
    using no_pipes_cons [where P = "\<lambda>k. length (groups k) < 4",
        OF ta [of "Suc (Suc n)"] n3 [of n]] by simp
  txt \<open>With ten entries or more: \<open>\10\<close>.\<close>
  have b9: "yields (\<lambda>k. 10 \<le> length (groups k)) (atom ?st ?s (Suc n)) 9 (\<lambda>k. VNode (?R10 k)) 12 []"
    for n
    using atom_backreference_two [where j = 9 and s = ?s and n = n, OF m] by simp
  have u9: "yields (\<lambda>k. 10 \<le> length (groups k)) (term_p ?st ?s (Suc (Suc n))) 9
      (\<lambda>k. VNode (?R10 k)) 12 []" for n
    using term_plain [where P = "\<lambda>k. 10 \<le> length (groups k)", OF b9 [of n]] by simp
  have p9: "yields (\<lambda>k. 10 \<le> length (groups k)) (no_pipes ?st ?s (Suc (Suc (Suc (Suc n))))) 9
      (\<lambda>k. VNode (?R10 k)) 12 []" for n
    using no_pipes_last [where P = "\<lambda>k. 10 \<le> length (groups k)", OF u9 [of "Suc n"] m] by simp
  have p6: "yields (\<lambda>k. 8 \<le> length (groups k))
      (no_pipes ?st ?s (Suc (Suc (Suc (Suc (Suc (Suc (Suc (Suc n))))))))) 6
      (\<lambda>k. VNode (Node (Str '','') [group_c, ?R10 (registers [group_c, group_c] k)])) 12
      [group_c, group_c]" for n
    using no_pipes_cons [where P = "\<lambda>k. 8 \<le> length (groups k)",
        OF tc [of n] p9 [of "Suc (Suc (Suc n))"]] by simp
  have p3: "yields (\<lambda>k. 6 \<le> length (groups k))
      (no_pipes ?st ?s (Suc (Suc (Suc (Suc (Suc (Suc (Suc (Suc (Suc n)))))))))) 3
      (\<lambda>k. VNode (Node (Str '','') [group_b, Node (Str '','') [group_c,
                    ?R10 (registers [group_b, group_b, group_c, group_c] k)]]))
      12 [group_b, group_b, group_c, group_c]" for n
    using no_pipes_cons [where P = "\<lambda>k. 6 \<le> length (groups k)",
        OF tb [of "Suc n"] p6 [of n]] by simp
  have p0: "yields (\<lambda>k. 4 \<le> length (groups k))
      (no_pipes ?st ?s (Suc (Suc (Suc (Suc (Suc (Suc (Suc (Suc (Suc (Suc n))))))))))) 0
      (\<lambda>k. VNode (Node (Str '','') [group_a, Node (Str '','') [group_b, Node (Str '','') [group_c,
                    ?R10 (registers [group_a, group_a, group_b, group_b, group_c, group_c] k)]]]))
      12 [group_a, group_a, group_b, group_b, group_c, group_c]" for n
    using no_pipes_cons [where P = "\<lambda>k. 4 \<le> length (groups k)",
        OF ta [of "Suc (Suc n)"] p3 [of n]] by simp
  txt \<open>\<open>toplevel\<close> runs \<open>no_pipes\<close> twice: first from the empty registry, then from six entries.\<close>
  show ?thesis
    using toplevel_no_pipe [where P = "\<lambda>k. groups k = []", OF n0 [of n] _ p0 [of n]] by simp
qed

lemma root_three_groups_then_10:
  "regexp_root (11 + n) (''(a)(b)(c)'' @ [bs, CHR ''1'', CHR ''0'']) default_settings =
     Some (Inr (Node (Str '','') [group_a, Node (Str '','') [group_b, Node (Str '','')
            [group_c, Node (Str [bs]) [Node (Num 10) [], group_c]]]]))"
proof -
  have p: "pieces (''(a)(b)(c)'' @ [bs, CHR ''1'', CHR ''0''])
      = Some (''(a)(b)(c)'' @ [bs, CHR ''1'', CHR ''0''], None)"
    by (simp add: pieces_def delimited_def is_line_terminator_def)
  show ?thesis
    unfolding add_11 regexp_root_def
    using regexp_parse_yields [OF p three_groups_then_10 [of n]]
    by (simp add: context_group_def)
qed

section \<open>Small patterns, evaluated\<close>

text \<open>
  Each pattern is evaluated under one bound; \<open>regexp_parse_more_depth\<close> carries the
  result to every deeper bound.
\<close>

lemma root_more_depth:
  assumes "regexp_root n r st = Some x"
  shows "regexp_root (n + m) r st = Some x"
proof (cases "regexp_parse n r st")
  case None
  with assms show ?thesis by (simp add: regexp_root_def)
next
  case (Some y)
  from regexp_parse_more_depth [OF Some] have "regexp_parse (n + m) r st = Some y" .
  with assms Some show ?thesis by (simp add: regexp_root_def)
qed

lemma match_groups_more_depth:
  assumes "regexp_match_groups n r st = Some x"
  shows "regexp_match_groups (n + m) r st = Some x"
proof (cases "regexp_parse n r st")
  case None
  with assms show ?thesis by (simp add: regexp_match_groups_def)
next
  case (Some y)
  from regexp_parse_more_depth [OF Some] have "regexp_parse (n + m) r st = Some y" .
  with assms Some show ?thesis by (simp add: regexp_match_groups_def)
qed

lemma minimum_length_more_depth:
  assumes "regexp_minimum_length n r st = Some x"
  shows "regexp_minimum_length (n + m) r st = Some x"
proof (cases "regexp_parse n r st")
  case None
  with assms show ?thesis by (simp add: regexp_minimum_length_def)
next
  case (Some y)
  from regexp_parse_more_depth [OF Some] have "regexp_parse (n + m) r st = Some y" .
  with assms Some show ?thesis by (simp add: regexp_minimum_length_def)
qed

lemma toString_more_depth:
  assumes "regexp_toString n r st = Some x"
  shows "regexp_toString (n + m) r st = Some x"
proof (cases "regexp_parse n r st")
  case None
  with assms show ?thesis by (simp add: regexp_toString_def)
next
  case (Some y)
  from regexp_parse_more_depth [OF Some] have "regexp_parse (n + m) r st = Some y" .
  with assms Some show ?thesis by (simp add: regexp_toString_def)
qed

lemma parse_a_close:
  "regexp_parse 8 ''a)'' default_settings =
     Some (Inl (Error ''caterwaul.regexp(): failed to parse a)''))"
  by code_simp

lemma root_open_a:
  "regexp_root 10 ''(a'' default_settings =
     Some (Inr (Node (Str '','') [Node (Str ''('') [], Node (Str ''a'') []]))"
  by code_simp

lemma minimum_length_open_a:
  "regexp_minimum_length 10 ''(a'' default_settings = Some (Inl TypeError)"
  by code_simp

lemma toString_open_a: "regexp_toString 10 ''(a'' default_settings = Some (Inl TypeError)"
  by code_simp

lemma root_backslash_1:
  "regexp_root 8 [bs, CHR ''1''] default_settings =
     Some (Inr (Node (Str [bs]) [Node (Num 1) [], Undefined]))"
  by code_simp

lemma minimum_length_star: "regexp_minimum_length 8 ''/a*/'' default_settings = Some (Inr 0)"
  by code_simp

lemma minimum_length_plus: "regexp_minimum_length 8 ''/a+/'' default_settings = Some (Inr 1)"
  by code_simp

lemma minimum_length_braces: "regexp_minimum_length 8 ''/a{3,5}/'' default_settings = Some (Inr 3)"
  by code_simp

lemma root_class_plus:
  "regexp_root 8 ''[+]'' default_settings = Some (Inr (Node (Str ''['') [Node (Str ''+'') []]))"
  by code_simp

lemma toString_class_plus: "regexp_toString 8 ''[+]'' default_settings = Some (Inl TypeError)"
  by code_simp

lemma flags_bare:
  "map_option (map_sum id (\<lambda>t. (regexp_i t, regexp_m t, regexp_g t)))
     (regexp_parse 6 ''a'' default_settings) = Some (Inr (True, False, False))"
  by code_simp

section \<open>The claims\<close>

text \<open>
  C1. The claim: the second child of an accepted backreference with ordinal \<open>n\<close> is the
  node of the \<open>n\<close>-th capturing group, counted from one. The code reads
  \<open>context.groups[n]\<close>, an index counted from zero into a registry that holds each
  group once for every run of the \<open>group\<close> rule over it. On the example of the claim,
  \<open>(a)(b)\1\<close>, the registry starts \<open>(a), (a), (b), (b)\<close> and the entry at index 1 is
  the first group, as the claim says. On \<open>(a)(b)(c)\3\<close> the registry starts
  \<open>(a), (a), (b), (b), (c), (c)\<close> and the entry at index 3 is the second group
  \<open>(b)\<close>: the third group is \<open>(c)\<close>. Both hold under every bound that lets the parse
  return. Nodes are compared by structure here: the model has no node identity, so it
  does not tell a link from a copy.
\<close>

theorem backreference_reads_registry_by_index:
  "regexp_root (10 + n) (''(a)(b)'' @ [bs, CHR ''1'']) default_settings =
     Some (Inr (Node (Str '','') [group_a, Node (Str '','')
            [group_b, Node (Str [bs]) [Node (Num 1) [], group_a]]]))
   \<and> regexp_root (11 + n) (''(a)(b)(c)'' @ [bs, CHR ''3'']) default_settings =
     Some (Inr (Node (Str '','') [group_a, Node (Str '','') [group_b, Node (Str '','')
            [group_c, Node (Str [bs]) [Node (Num 3) [], group_b]]]]))"
  by (simp only: root_two_groups_then_1 root_three_groups_then_3 simp_thms)

theorem backreference_reads_registry_by_index_witness:
  "regexp_root 10 (''(a)(b)'' @ [bs, CHR ''1'']) default_settings =
     Some (Inr (Node (Str '','') [group_a, Node (Str '','')
            [group_b, Node (Str [bs]) [Node (Num 1) [], group_a]]]))
   \<and> regexp_root 11 (''(a)(b)(c)'' @ [bs, CHR ''3'']) default_settings =
     Some (Inr (Node (Str '','') [group_a, Node (Str '','') [group_b, Node (Str '','')
            [group_c, Node (Str [bs]) [Node (Num 3) [], group_b]]]]))
   \<and> group_b \<noteq> group_c"
  using backreference_reads_registry_by_index [of 0] by (simp add: group_b_def group_c_def)

text \<open>
  C2, as amended. The claim lists the nodes of \<open>match_groups()\<close> of \<open>((a)(b))\<close> with
  the outer group first, and says that nested groups register before the group around
  them. The code pushes a group when its closing parenthesis has been matched, so the
  second half of the claim is the one that holds: the first entry of the registry is
  inner-a, an entry inner-a stands before the first inner-b, an entry inner-b stands
  before the first outer, and the last entry is outer. This holds under every bound
  that lets the parse return.
\<close>

theorem nested_groups_register_first:
  "map_option
     (map_sum id (\<lambda>gs. (take 1 gs, registered_before group_a group_b gs,
                         registered_before group_b group_ab gs, last gs)))
     (regexp_match_groups (14 + n) ''((a)(b))'' default_settings) =
   Some (Inr ([group_a], True, True, group_ab))"
  by (simp only: match_groups_nested option.map map_sum.simps id_apply)
    (simp add: one_pass_def registered_before_def group_a_def group_b_def group_ab_def)

theorem nested_groups_register_first_witness:
  "map_option
     (map_sum id (\<lambda>gs. (take 1 gs, registered_before group_a group_b gs,
                         registered_before group_b group_ab gs, last gs)))
     (regexp_match_groups 14 ''((a)(b))'' default_settings) =
   Some (Inr ([group_a], True, True, group_ab))"
  using nested_groups_register_first [of 0] by simp

theorem nested_groups_not_outer_first:
  "map_option (map_sum id (take 1)) (regexp_match_groups 14 ''((a)(b))'' default_settings) \<noteq>
     Some (Inr [group_ab])"
  using match_groups_nested [of 0]
  by (simp add: one_pass_def group_a_def group_ab_def)

lemma add_5: "n + 5 = Suc (Suc (Suc (Suc (Suc n))))"
  by simp

text \<open>
  C10. Parsing the empty pattern raises the parse error and returns no tree: this holds
  for every text whose pattern part is empty (the empty text, \<open>//\<close>, \<open>//gi\<close>, ...),
  in either atom mode and under every bound of at least five nested rule calls. The
  reason is \<open>atom_end\<close>: no alternative of \<open>atom\<close> succeeds without a character left.
\<close>

theorem empty_pattern_raises:
  "pieces r = Some ([], fl) \<Longrightarrow>
   regexp_parse (n + 5) r st = Some (Inl (Error (''caterwaul.regexp(): failed to parse '' @ r)))"
  by (simp add: regexp_parse_def add_5 join_def toplevel_end del: add_Suc_right)

theorem empty_pattern_raises_witness:
  "pieces '''' = Some ([], None) \<and> pieces ''//'' = Some ([], Some [])
   \<and> regexp_parse 5 '''' default_settings =
       Some (Inl (Error ''caterwaul.regexp(): failed to parse ''))
   \<and> regexp_parse 5 ''//'' default_settings =
       Some (Inl (Error ''caterwaul.regexp(): failed to parse //''))"
proof -
  have 1: "pieces '''' = Some ([], None)"
    by (simp add: pieces_def delimited_def)
  have 2: "pieces ''//'' = Some ([], Some [])"
    by (simp add: pieces_def delimited_def is_line_terminator_def)
  from empty_pattern_raises [OF 1, of 0 default_settings]
    empty_pattern_raises [OF 2, of 0 default_settings] 1 2
  show ?thesis by simp
qed


text \<open>
  C3. The claim: the registry gets one entry for each capturing group of the accepted
  derivation, and an alternative that fails later leaves nothing behind. The code pushes
  the group node whenever the \<open>group\<close> rule succeeds, and \<open>term\<close>, \<open>no_pipes\<close> and
  \<open>toplevel\<close> each run their first rule again after the longer alternative has failed:
  the pattern \<open>(a)\<close>, with one capturing group, leaves eight entries in
  \<open>context.groups\<close>.
\<close>

lemma add_9: "9 + n = Suc (Suc (Suc (Suc (Suc (Suc (Suc (Suc (Suc n))))))))"
  by simp

theorem registry_keeps_failed_attempts:
  "regexp_match_groups (9 + n) ''(a)'' default_settings =
     Some (Inr (replicate 8 (Node (Str ''('') [Node (Str ''a'') []])))"
  by (simp only: add_9 regexp_match_groups_def parse_group_a)
    (simp add: match_groups_def)

theorem registry_keeps_failed_attempts_witness:
  "regexp_match_groups 9 ''(a)'' default_settings =
     Some (Inr (replicate 8 (Node (Str ''('') [Node (Str ''a'') []])))"
  using registry_keeps_failed_attempts [of 0] by simp

text \<open>
  C4. The claim: for every tree of a successful parse, parsing \<open>toString\<close> of the tree
  again succeeds with the same \<open>minimum_length\<close> and the same number of groups. On the
  pattern \<open>[+]\<close> the parse succeeds, and \<open>toString\<close> raises a TypeError: the class
  member \<open>+\<close> is a leaf, \<open>is_one_or_more\<close> tests its data alone (\<open>is_range\<close>,
  \<open>is_disjunction\<close> and \<open>is_join\<close> test \<open>this.length\<close> as well), and the branch
  reads \<open>this[0].toString()\<close> of a node without children.
\<close>

theorem toString_raises_on_class_member:
  "regexp_root (8 + n) ''[+]'' default_settings =
     Some (Inr (Node (Str ''['') [Node (Str ''+'') []]))
   \<and> regexp_toString (8 + n) ''[+]'' default_settings = Some (Inl TypeError)"
  using root_more_depth [OF root_class_plus] toString_more_depth [OF toString_class_plus]
  by simp

theorem toString_raises_on_class_member_witness:
  "regexp_root 8 ''[+]'' default_settings = Some (Inr (Node (Str ''['') [Node (Str ''+'') []]))
   \<and> regexp_toString 8 ''[+]'' default_settings = Some (Inl TypeError)"
  using toString_raises_on_class_member [of 0] by simp

text \<open>
  C5. The claim: the parse raises the error that names the input whenever no derivation
  consumes the pattern to its end; \<open>a)\<close> and \<open>(a\<close> both raise it. The code raises it on
  \<open>a)\<close>. On \<open>(a\<close> it does not: \<open>other\<close> excludes only the characters \<open>)|+*?{\<close>, so
  the unmatched \<open>(\<close> is read as an atom of one character and the parse returns the
  concatenation of the leaves \<open>(\<close> and \<open>a\<close>. The leaf \<open>(\<close> passes \<open>is_group\<close>, and
  \<open>minimum_length()\<close> and \<open>toString()\<close> of the tree returned read its first child,
  which it does not have, and raise a TypeError. All of this holds under every bound
  that lets the parse return.
\<close>

theorem unterminated_group_is_accepted:
  "regexp_root (10 + n) ''(a'' default_settings =
     Some (Inr (Node (Str '','') [Node (Str ''('') [], Node (Str ''a'') []]))
   \<and> regexp_minimum_length (10 + n) ''(a'' default_settings = Some (Inl TypeError)
   \<and> regexp_toString (10 + n) ''(a'' default_settings = Some (Inl TypeError)
   \<and> regexp_parse (8 + n) ''a)'' default_settings =
       Some (Inl (Error ''caterwaul.regexp(): failed to parse a)''))"
proof (intro conjI)
  show "regexp_root (10 + n) ''(a'' default_settings =
       Some (Inr (Node (Str '','') [Node (Str ''('') [], Node (Str ''a'') []]))"
    by (rule root_more_depth [OF root_open_a])
  show "regexp_minimum_length (10 + n) ''(a'' default_settings = Some (Inl TypeError)"
    by (rule minimum_length_more_depth [OF minimum_length_open_a])
  show "regexp_toString (10 + n) ''(a'' default_settings = Some (Inl TypeError)"
    by (rule toString_more_depth [OF toString_open_a])
  show "regexp_parse (8 + n) ''a)'' default_settings =
       Some (Inl (Error ''caterwaul.regexp(): failed to parse a)''))"
    by (rule regexp_parse_more_depth [OF parse_a_close])
qed

theorem unterminated_group_is_accepted_witness:
  "regexp_root 10 ''(a'' default_settings =
     Some (Inr (Node (Str '','') [Node (Str ''('') [], Node (Str ''a'') []]))
   \<and> is_group (Node (Str ''('') [])
   \<and> regexp_minimum_length 10 ''(a'' default_settings = Some (Inl TypeError)
   \<and> regexp_toString 10 ''(a'' default_settings = Some (Inl TypeError)
   \<and> regexp_parse 8 ''a)'' default_settings =
       Some (Inl (Error ''caterwaul.regexp(): failed to parse a)''))"
  using unterminated_group_is_accepted [of 0] by (simp add: is_group_def tag_def)

text \<open>
  C6. The claim: a text that is not of the form \<open>/pattern/flags\<close> gives a tree whose
  \<open>i()\<close>, \<open>m()\<close> and \<open>g()\<close> are all false. For such a text \<open>pieces[2]\<close> is undefined,
  \<open>/i/.test(undefined)\<close> tests the text \<open>undefined\<close>, which holds an \<open>i\<close>: on the
  bare pattern \<open>a\<close> the accessor \<open>i()\<close> returns true.
\<close>

theorem bare_pattern_is_case_insensitive:
  "map_option (map_sum id (\<lambda>t. (regexp_i t, regexp_m t, regexp_g t)))
     (regexp_parse (6 + n) ''a'' default_settings) = Some (Inr (True, False, False))"
proof (cases "regexp_parse 6 ''a'' default_settings")
  case None
  with flags_bare show ?thesis by simp
next
  case (Some y)
  from regexp_parse_more_depth [OF Some]
  have "regexp_parse (6 + n) ''a'' default_settings = Some y" .
  with flags_bare Some show ?thesis by simp
qed

theorem bare_pattern_is_case_insensitive_witness:
  "map_option (map_sum id (\<lambda>t. (regexp_i t, regexp_m t, regexp_g t)))
     (regexp_parse 6 ''a'' default_settings) = Some (Inr (True, False, False))"
  using bare_pattern_is_case_insensitive [of 0] by simp

text \<open>
  C7. The claim: after three groups, \<open>\10\<close> is not read as the ordinal ten; it binds
  group one and leaves a literal \<open>0\<close>. The code compares the two-digit number with
  \<open>context.groups.length\<close>. In \<open>(a)(b)(c)\10\<close> the first run of \<open>no_pipes\<close> finds
  six entries at the backslash and reads \<open>\1\<close> and then \<open>0\<close>; it leaves six entries
  behind, \<open>toplevel\<close> runs \<open>no_pipes\<close> again, and this second run finds twelve
  entries at the backslash: ten is within the bound. The tree returned is the one of the
  second run, a backreference with the number 10, bound to the entry at index 10, the
  group \<open>(c)\<close>, and no literal \<open>0\<close> follows it. This holds under every bound that
  lets the parse return.
\<close>

theorem two_digits_accepted_after_three_groups:
  "regexp_root (11 + n) (''(a)(b)(c)'' @ [bs, CHR ''1'', CHR ''0'']) default_settings =
     Some (Inr (Node (Str '','') [group_a, Node (Str '','') [group_b, Node (Str '','')
            [group_c, Node (Str [bs]) [Node (Num 10) [], group_c]]]]))"
  by (simp only: root_three_groups_then_10)

theorem two_digits_accepted_after_three_groups_witness:
  "regexp_root 11 (''(a)(b)(c)'' @ [bs, CHR ''1'', CHR ''0'']) default_settings =
     Some (Inr (Node (Str '','') [group_a, Node (Str '','') [group_b, Node (Str '','')
            [group_c, Node (Str [bs]) [Node (Num 10) [], group_c]]]]))"
  using two_digits_accepted_after_three_groups [of 0] by simp

text \<open>
  C8. The claim: with no capturing group completed, the backreference alternative fails
  on \<open>\1\<close> and the parse gives a literal \<open>1\<close>. In the code the reading with two
  digits is guarded by \<open>it.v <= context.groups.length\<close>, and every failure of it falls
  back to the reading with one digit, which has no guard: on \<open>\1\<close> the rule
  \<open>backreference\<close> succeeds with an empty registry, and the second child of the node
  it builds is \<open>context.groups[1]\<close> of the empty array, \<open>undefined\<close>. The parse
  returns this node, under every bound that lets it return; it is no leaf, and its
  first child is the number 1, not the text \<open>1\<close>.
\<close>

theorem lone_backreference_is_unguarded:
  "backreference [bs, CHR ''1''] (Cursor x 0) \<lparr>groups = [], flags = f\<rparr> =
     Some (Some (Cursor (VNode (Node (Str [bs]) [Node (Num 1) [], Undefined])) 2),
           \<lparr>groups = [], flags = f\<rparr>)
   \<and> regexp_root (8 + n) [bs, CHR ''1''] default_settings =
       Some (Inr (Node (Str [bs]) [Node (Num 1) [], Undefined]))
   \<and> Node (Str [bs]) [Node (Num 1) [], Undefined] \<noteq> Node (Str ''1'') []"
proof (intro conjI)
  show "backreference [bs, CHR ''1''] (Cursor x 0) \<lparr>groups = [], flags = f\<rparr> =
     Some (Some (Cursor (VNode (Node (Str [bs]) [Node (Num 1) [], Undefined])) 2),
           \<lparr>groups = [], flags = f\<rparr>)"
    by (simp add: backreference_def single_digit_backreference_def map_p_def join_def
        char_p_def digit_def ret_def node_def context_group_def to_number_def digit_val_def)
  show "regexp_root (8 + n) [bs, CHR ''1''] default_settings =
       Some (Inr (Node (Str [bs]) [Node (Num 1) [], Undefined]))"
    by (rule root_more_depth [OF root_backslash_1])
  show "Node (Str [bs]) [Node (Num 1) [], Undefined] \<noteq> Node (Str ''1'') []"
    by simp
qed

theorem lone_backreference_is_unguarded_witness:
  "backreference [bs, CHR ''1''] (Cursor VUndef 0)
       \<lparr>groups = [], flags = \<lparr>flag_i = True, flag_m = False, flag_g = False\<rparr>\<rparr> =
     Some (Some (Cursor (VNode (Node (Str [bs]) [Node (Num 1) [], Undefined])) 2),
           \<lparr>groups = [], flags = \<lparr>flag_i = True, flag_m = False, flag_g = False\<rparr>\<rparr>)
   \<and> regexp_root 8 [bs, CHR ''1''] default_settings =
       Some (Inr (Node (Str [bs]) [Node (Num 1) [], Undefined]))"
  using lone_backreference_is_unguarded
    [of VUndef "\<lparr>flag_i = True, flag_m = False, flag_g = False\<rparr>" 0]
  by simp

lemma below_limit: "(int n < 2 ^ 53) = (n < 2 ^ 53)"
  by (metis of_nat_less_iff of_nat_numeral of_nat_power)

lemma exact_below: "n < 2 ^ 53 \<Longrightarrow> exact n = Inr n"
  by (simp only: exact_def below_limit if_True)

lemma times_below: "l < 2 ^ 53 \<Longrightarrow> l * m < 2 ^ 53 \<Longrightarrow> times (Num l) m = Inr (l * m)"
  by (simp only: times_def data.case below_limit if_True exact_below)

text \<open>
  C9. \<open>minimum_length()\<close> of the tree of \<open>/a*/\<close> is 0, of \<open>/a+/\<close> is 1 and of
  \<open>/a{3,5}/\<close> is 3; a repetition node with lower limit \<open>l\<close> and a body of minimum
  length \<open>m\<close> has the minimum length \<open>l * m\<close>. The product is one of doubles: it is
  the product of the natural numbers where \<open>l\<close> and \<open>l * m\<close> are below \<open>2^53\<close>.
\<close>

theorem minimum_length_of_repetitions:
  "regexp_minimum_length (8 + n) ''/a*/'' default_settings = Some (Inr 0)
   \<and> regexp_minimum_length (8 + n) ''/a+/'' default_settings = Some (Inr 1)
   \<and> regexp_minimum_length (8 + n) ''/a{3,5}/'' default_settings = Some (Inr 3)
   \<and> (is_repetition this \<and> lower_limit this = Inr (Num l) \<and> repeated_child this = Some c
        \<and> minimum_length c = Inr m \<and> l < 2 ^ 53 \<and> l * m < 2 ^ 53
      \<longrightarrow> minimum_length this = Inr (l * m))"
proof (intro conjI impI)
  show "regexp_minimum_length (8 + n) ''/a*/'' default_settings = Some (Inr 0)"
    by (rule minimum_length_more_depth [OF minimum_length_star])
  show "regexp_minimum_length (8 + n) ''/a+/'' default_settings = Some (Inr 1)"
    by (rule minimum_length_more_depth [OF minimum_length_plus])
  show "regexp_minimum_length (8 + n) ''/a{3,5}/'' default_settings = Some (Inr 3)"
    by (rule minimum_length_more_depth [OF minimum_length_braces])
  assume a: "is_repetition this \<and> lower_limit this = Inr (Num l) \<and> repeated_child this = Some c
        \<and> minimum_length c = Inr m \<and> l < 2 ^ 53 \<and> l * m < 2 ^ 53"
  then obtain d cs where shape: "this = Node d cs"
    by (cases this) (auto simp: repeated_child_def split: if_splits)
  from a have "\<not> is_zero_width this" "\<not> is_single_escape this" "\<not> is_character_class this"
    by (auto simp: is_repetition_def is_zero_width_def is_single_escape_def is_character_class_def
        is_positive_lookahead_def is_negative_lookahead_def starts_with_def)
  with a show "minimum_length this = Inr (l * m)"
    unfolding shape by (simp add: times_below)
qed

theorem minimum_length_of_repetitions_witness:
  "regexp_minimum_length 8 ''/a*/'' default_settings = Some (Inr 0)
   \<and> regexp_minimum_length 8 ''/a+/'' default_settings = Some (Inr 1)
   \<and> regexp_minimum_length 8 ''/a{3,5}/'' default_settings = Some (Inr 3)
   \<and> is_repetition (Node (Str ''{'') [Node (Num 3) [], Node (Num 5) [], Node (Str ''a'') []])
   \<and> lower_limit (Node (Str ''{'') [Node (Num 3) [], Node (Num 5) [], Node (Str ''a'') []])
       = Inr (Num 3)
   \<and> repeated_child (Node (Str ''{'') [Node (Num 3) [], Node (Num 5) [], Node (Str ''a'') []])
       = Some (Node (Str ''a'') [])
   \<and> minimum_length (Node (Str ''a'') []) = Inr 1
   \<and> (3 :: nat) < 2 ^ 53 \<and> (3 :: nat) * 1 < 2 ^ 53
   \<and> minimum_length (Node (Str ''{'') [Node (Num 3) [], Node (Num 5) [], Node (Str ''a'') []])
       = Inr (3 * 1)"
proof -
  let ?t = "Node (Str ''{'') [Node (Num 3) [], Node (Num 5) [], Node (Str ''a'') []]"
  have 1: "is_repetition ?t" "lower_limit ?t = Inr (Num 3)"
    "repeated_child ?t = Some (Node (Str ''a'') [])"
    by (simp_all add: is_repetition_def lower_limit_def repeated_child_def tag_def
        starts_with_def child_data_def)
  have 2: "minimum_length (Node (Str ''a'') []) = Inr 1"
    by code_simp
  from minimum_length_of_repetitions [of 0 ?t 3 "Node (Str ''a'') []" 1] 1 2
  show ?thesis by simp
qed

end
